theory Spec2Isabelle
  imports Main
begin

section \<open>JavaScript values used by both modules\<close>

text \<open>
  A value that may be \<^verbatim>\<open>null\<close> or \<^verbatim>\<open>undefined\<close> is an \<open>option\<close>; \<open>None\<close>
  stands for both, since the code only tests them for truthiness or with \<^verbatim>\<open>?.\<close>.
  A string is falsy when it is absent or empty, a number when it is absent or \<open>0\<close>
  (the numbers here are counts and limits, so \<^verbatim>\<open>NaN\<close> is left out).
\<close>

definition truthy_str :: "string option \<Rightarrow> bool" where
  "truthy_str v = (case v of None \<Rightarrow> False | Some s \<Rightarrow> s \<noteq> [])"

text \<open>\<^verbatim>\<open>a || d\<close> on a number that may be absent, with a number as the default.\<close>

definition num_or :: "int option \<Rightarrow> int \<Rightarrow> int" where
  "num_or v d = (case v of None \<Rightarrow> d | Some n \<Rightarrow> if n = 0 then d else n)"

text \<open>\<^verbatim>\<open>a || b\<close> on strings that may be absent.\<close>

definition str_or :: "string option \<Rightarrow> string option \<Rightarrow> string option" where
  "str_or a b = (if truthy_str a then a else b)"

text \<open>
  \<^verbatim>\<open>s.split(sep)\<close> for a one-character separator: the pieces between the
  separators, in order; the empty string gives one empty piece.
\<close>

fun split :: "char \<Rightarrow> string \<Rightarrow> string list" where
  "split sep [] = [[]]"
| "split sep (c # cs) =
     (if c = sep then [] # split sep cs
      else (case split sep cs of [] \<Rightarrow> [[c]] | p # ps \<Rightarrow> (c # p) # ps))"

text \<open>The part of a string before the first occurrence of a character (all of it if none).\<close>

definition before_first :: "char \<Rightarrow> string \<Rightarrow> string" where
  "before_first sep s = takeWhile (\<lambda>c. c \<noteq> sep) s"

text \<open>\<^verbatim>\<open>xs[i]\<close>: \<^verbatim>\<open>undefined\<close> out of range.\<close>

fun index :: "'a list \<Rightarrow> nat \<Rightarrow> 'a option" where
  "index [] i = None"
| "index (x # xs) 0 = Some x"
| "index (x # xs) (Suc i) = index xs i"

text \<open>The error object of a remote response; the code reads its \<^verbatim>\<open>code\<close>.\<close>

datatype pg_error = PgError (code: string)

text \<open>The \<^verbatim>\<open>{ data, error }\<close> pair every remote call resolves to.\<close>

record 'a response =
  data :: "'a option"
  error :: "pg_error option"

section \<open>contexts/UserContext.js\<close>

subsection \<open>State\<close>

type_synonym tier_limits = "string \<rightharpoonup> int"

text \<open>The \<^verbatim>\<open>setting_value\<close> JSON of the \<^verbatim>\<open>feature_gates\<close> row; each category may be absent.\<close>

record setting_value =
  sv_daily_search_limits :: "tier_limits option"
  sv_daily_watch_time_limits :: "tier_limits option"
  sv_favorite_limits :: "tier_limits option"

text \<open>The row selected from \<^verbatim>\<open>admin_settings\<close> (\<^verbatim>\<open>select('setting_value')\<close>).\<close>

record settings_row =
  setting_value :: "setting_value option"

text \<open>The value held in the \<^verbatim>\<open>dailyLimits\<close> state once it is set.\<close>

record daily_limits =
  daily_search_limits :: tier_limits
  daily_watch_time_limits :: tier_limits
  favorite_limits :: tier_limits

record profile =
  id' :: "string option"
  email :: "string option"
  full_name :: "string option"
  subscription_tier :: "string option"
  subscription_status :: "string option"
  daily_searches_used :: "int option"
  last_search_reset :: "string option"

text \<open>The \<^verbatim>\<open>user\<close> object of the auth context; only its \<^verbatim>\<open>id\<close> is read.\<close>

record user =
  user_id :: "string option"

subsection \<open>fetchDailyLimits\<close>

definition default_search_limits :: tier_limits where
  "default_search_limits = [''freebird'' \<mapsto> 8, ''roadie'' \<mapsto> 24, ''hero'' \<mapsto> 100]"

definition default_watch_time_limits :: tier_limits where
  "default_watch_time_limits = [''freebird'' \<mapsto> 60, ''roadie'' \<mapsto> 180, ''hero'' \<mapsto> 480]"

definition default_favorite_limits :: tier_limits where
  "default_favorite_limits = [''freebird'' \<mapsto> 0, ''roadie'' \<mapsto> 12, ''hero'' \<mapsto> - 1]"

definition default_limits :: daily_limits where
  "default_limits =
     \<lparr>daily_search_limits = default_search_limits,
      daily_watch_time_limits = default_watch_time_limits,
      favorite_limits = default_favorite_limits\<rparr>"

text \<open>\<^verbatim>\<open>remote || default\<close> on one category: an object is always truthy.\<close>

definition limits_or :: "tier_limits option \<Rightarrow> tier_limits \<Rightarrow> tier_limits" where
  "limits_or v d = (case v of None \<Rightarrow> d | Some m \<Rightarrow> m)"

text \<open>
  \<open>fetchDailyLimits resp dailyLimits\<close> is the \<^verbatim>\<open>dailyLimits\<close> state after the fetch has
  resolved to \<open>resp\<close>, from the state \<open>dailyLimits\<close> before it (\<open>None\<close> is the
  initial \<^verbatim>\<open>null\<close>). An error is thrown into the \<^verbatim>\<open>catch\<close>, which sets the defaults;
  without an error the state is set only under the guard \<^verbatim>\<open>if (data?.setting_value)\<close>.
\<close>

definition fetchDailyLimits ::
  "settings_row response \<Rightarrow> daily_limits option \<Rightarrow> daily_limits option" where
  "fetchDailyLimits resp dailyLimits =
     (case error resp of
        Some e \<Rightarrow> Some default_limits
      | None \<Rightarrow>
          (case data resp of
             None \<Rightarrow> dailyLimits
           | Some row \<Rightarrow>
               (case setting_value row of
                  None \<Rightarrow> dailyLimits
                | Some sv \<Rightarrow>
                    Some \<lparr>daily_search_limits =
                            limits_or (sv_daily_search_limits sv) default_search_limits,
                          daily_watch_time_limits =
                            limits_or (sv_daily_watch_time_limits sv) default_watch_time_limits,
                          favorite_limits =
                            limits_or (sv_favorite_limits sv) default_favorite_limits\<rparr>)))"

subsection \<open>Optional chaining\<close>

text \<open>
  \<^verbatim>\<open>profile?.subscription_tier\<close>, \<^verbatim>\<open>profile?.daily_searches_used\<close>,
  \<^verbatim>\<open>profile?.full_name\<close>, \<^verbatim>\<open>profile?.email\<close>, \<^verbatim>\<open>profile?.last_search_reset\<close>
  and \<^verbatim>\<open>user?.id\<close>: absent when the object is.
\<close>

definition tier_of :: "profile option \<Rightarrow> string option" where
  "tier_of profile = (case profile of None \<Rightarrow> None | Some p \<Rightarrow> subscription_tier p)"

definition searches_used_of :: "profile option \<Rightarrow> int option" where
  "searches_used_of profile = (case profile of None \<Rightarrow> None | Some p \<Rightarrow> daily_searches_used p)"

definition full_name_of :: "profile option \<Rightarrow> string option" where
  "full_name_of profile = (case profile of None \<Rightarrow> None | Some p \<Rightarrow> full_name p)"

definition email_of :: "profile option \<Rightarrow> string option" where
  "email_of profile = (case profile of None \<Rightarrow> None | Some p \<Rightarrow> email p)"

definition last_search_reset_of :: "profile option \<Rightarrow> string option" where
  "last_search_reset_of profile = (case profile of None \<Rightarrow> None | Some p \<Rightarrow> last_search_reset p)"

definition user_id_of :: "user option \<Rightarrow> string option" where
  "user_id_of user = (case user of None \<Rightarrow> None | Some u \<Rightarrow> user_id u)"

subsection \<open>Limit accessors\<close>

definition getDailySearchLimit :: "daily_limits option \<Rightarrow> profile option \<Rightarrow> int" where
  "getDailySearchLimit dailyLimits profile =
     (case dailyLimits of
        None \<Rightarrow> 0
      | Some dl \<Rightarrow>
          (case tier_of profile of
             None \<Rightarrow> 0
           | Some t \<Rightarrow> if t = [] then 0 else num_or (daily_search_limits dl t) 0))"

text \<open>\<^verbatim>\<open>profile?.daily_searches_used || 0\<close>.\<close>

definition used_of :: "profile option \<Rightarrow> int" where
  "used_of profile =
     num_or (searches_used_of profile) 0"

definition checkDailySearchLimit :: "daily_limits option \<Rightarrow> profile option \<Rightarrow> bool" where
  "checkDailySearchLimit dailyLimits profile =
     (let limit = getDailySearchLimit dailyLimits profile;
          used = used_of profile
      in if limit = - 1 then True else used < limit)"

definition getDailyWatchTimeLimit :: "daily_limits option \<Rightarrow> profile option \<Rightarrow> int" where
  "getDailyWatchTimeLimit dailyLimits profile =
     (case dailyLimits of
        None \<Rightarrow> 60
      | Some dl \<Rightarrow>
          (case tier_of profile of
             None \<Rightarrow> 60
           | Some t \<Rightarrow> if t = [] then 60 else num_or (daily_watch_time_limits dl t) 60))"

definition getFavoriteLimit :: "daily_limits option \<Rightarrow> profile option \<Rightarrow> int" where
  "getFavoriteLimit dailyLimits profile =
     (case dailyLimits of
        None \<Rightarrow> 0
      | Some dl \<Rightarrow>
          (case tier_of profile of
             None \<Rightarrow> 0
           | Some t \<Rightarrow> if t = [] then 0 else num_or (favorite_limits dl t) 0))"

subsection \<open>userName\<close>

text \<open>\<^verbatim>\<open>profile?.email?.split('@')[0]\<close>.\<close>

definition email_local_part :: "profile option \<Rightarrow> string option" where
  "email_local_part profile =
     (case email_of profile of None \<Rightarrow> None | Some e \<Rightarrow> index (split CHR ''@'' e) 0)"

text \<open>
  \<^verbatim>\<open>profile?.full_name || profile?.email?.split('@')[0] || 'User'\<close>; the last
  operand is a non-empty string, so the result is always a string.
\<close>

definition userName :: "profile option \<Rightarrow> string" where
  "userName profile =
     (case str_or (full_name_of profile) (str_or (email_local_part profile) (Some ''User'')) of
        None \<Rightarrow> ''User''
      | Some s \<Rightarrow> s)"

subsection \<open>Daily reset\<close>

text \<open>
  \<open>resetDailySearchCount user\<close> lists the remote procedures the function invokes:
  none when \<^verbatim>\<open>!user?.id\<close>, else \<^verbatim>\<open>reset_daily_searches\<close>.
\<close>

definition resetDailySearchCount :: "user option \<Rightarrow> string list" where
  "resetDailySearchCount user =
     (if \<not> truthy_str (user_id_of user) then []
      else [''reset_daily_searches''])"

text \<open>
  The body of the effect that depends on \<^verbatim>\<open>profile?.last_search_reset\<close>, as the list
  of remote procedures one run of it invokes. \<^verbatim>\<open>Date\<close> is a built-in of the language:
  \<open>toDateString s\<close> stands for \<^verbatim>\<open>new Date(s).toDateString()\<close> and \<open>today\<close> for
  \<^verbatim>\<open>new Date().toDateString()\<close> at the time the effect runs; both are parameters.
\<close>

definition dailyResetEffect ::
  "(string \<Rightarrow> string) \<Rightarrow> string \<Rightarrow> user option \<Rightarrow> profile option \<Rightarrow> string list" where
  "dailyResetEffect toDateString today user profile =
     (case last_search_reset_of profile of
        None \<Rightarrow> []
      | Some s \<Rightarrow>
          if s = [] then []
          else if toDateString s \<noteq> today then resetDailySearchCount user
          else [])"

text \<open>
  \<^verbatim>\<open>useEffect(body, [profile?.last_search_reset])\<close>: the framework runs the body after
  the first render and after every render at which the dependency differs from its value
  at the render before. \<open>prev\<close> is that earlier value, \<open>None\<close> before the first
  render. (\<^verbatim>\<open>null\<close> and \<^verbatim>\<open>undefined\<close> are both \<open>None\<close>: a change from one to the
  other runs the body, which does nothing on either.)
\<close>

definition dependency_changed :: "string option option \<Rightarrow> string option \<Rightarrow> bool" where
  "dependency_changed prev dep = (case prev of None \<Rightarrow> True | Some d \<Rightarrow> d \<noteq> dep)"

text \<open>
  What one render invokes: a profile load or update sets the \<^verbatim>\<open>profile\<close> state, the
  component renders with it, and the effect runs or not by its dependency.
\<close>

definition dailyResetOnRender ::
  "(string \<Rightarrow> string) \<Rightarrow> string \<Rightarrow> user option \<Rightarrow> string option option \<Rightarrow> profile option
     \<Rightarrow> string list" where
  "dailyResetOnRender toDateString today user prev profile =
     (if dependency_changed prev (last_search_reset_of profile)
      then dailyResetEffect toDateString today user profile
      else [])"

text \<open>
  A sequence of renders, each with the clock's date string, the user and the profile it
  renders with; the result lists what each of them invokes.
\<close>

type_synonym render = "string \<times> user option \<times> profile option"

fun dailyResetOnRenders ::
  "(string \<Rightarrow> string) \<Rightarrow> string option option \<Rightarrow> render list \<Rightarrow> string list list" where
  "dailyResetOnRenders toDateString prev [] = []"
| "dailyResetOnRenders toDateString prev ((today, user, profile) # rest) =
     dailyResetOnRender toDateString today user prev profile
     # dailyResetOnRenders toDateString (Some (last_search_reset_of profile)) rest"

text \<open>The dependency's value at the render before the \<open>i\<close>-th of a sequence.\<close>

definition previous_dependency :: "string option option \<Rightarrow> render list \<Rightarrow> nat \<Rightarrow> string option option" where
  "previous_dependency prev rs i =
     (if i = 0 then prev else Some (last_search_reset_of (snd (snd (rs ! (i - 1))))))"

section \<open>scripts/migrate-chord-data.js\<close>

subsection \<open>Input\<close>

record caption =
  chord_name :: string
  fret_position :: string
  start_time :: string
  end_time :: string

definition chordCaptionData :: "caption list" where
  "chordCaptionData =
     [\<lparr>chord_name = ''D#'', fret_position = ''Pos2'', start_time = ''0:09'', end_time = ''0:19''\<rparr>,
      \<lparr>chord_name = ''D#'', fret_position = ''Open'', start_time = ''0:09'', end_time = ''0:19''\<rparr>,
      \<lparr>chord_name = ''C'', fret_position = ''Open'', start_time = ''0:21'', end_time = ''1:19''\<rparr>,
      \<lparr>chord_name = ''F7sus4'', fret_position = ''Pos6'', start_time = ''0:29'', end_time = ''1:19''\<rparr>,
      \<lparr>chord_name = ''D'', fret_position = ''Open'', start_time = ''1:09'', end_time = ''2:19''\<rparr>,
      \<lparr>chord_name = ''F7sus4'', fret_position = ''Pos6'', start_time = ''3:09'', end_time = ''3:19''\<rparr>,
      \<lparr>chord_name = ''D'', fret_position = ''Open'', start_time = ''3:09'', end_time = ''3:19''\<rparr>,
      \<lparr>chord_name = ''A'', fret_position = ''Pos1'', start_time = ''4:22'', end_time = ''4:32''\<rparr>,
      \<lparr>chord_name = ''A#'', fret_position = ''Pos3v2'', start_time = ''4:24'', end_time = ''4:34''\<rparr>]"

subsection \<open>The remote store\<close>

record chord_variation =
  var_id :: nat
  var_chord_name :: string

record chord_position =
  pos_id :: nat
  chord_variation_id :: "nat option"
  pos_chord_name :: string
  pos_fret_position :: string
  chord_position_full_name :: string
  aws_svg_url_light :: string
  aws_svg_url_dark :: string

text \<open>The requests the script sends, with the values they filter on or insert.\<close>

datatype request =
  SelectVariation string
| InsertVariation string
| SelectPosition string string
| InsertPosition string string
| SelectAllVariations
| SelectAllPositions

text \<open>
  Modelled from the spec: the store behind the \<^verbatim>\<open>supabase\<close> client
  (\<^verbatim>\<open>../lib/supabase.js\<close> and the backend are not among the sources). It holds the two
  tables, in insertion order. \<open>faults\<close> is the outcome scheduled for each coming
  request, \<open>None\<close> for one that is served and \<open>Some e\<close> for one that fails with
  \<open>e\<close> (an empty schedule serves every request); \<open>log\<close> is the requests made so
  far, oldest first, each with the error of its response.
\<close>

record store =
  chord_variations :: "chord_variation list"
  chord_positions :: "chord_position list"
  faults :: "pg_error option list"
  log :: "(request \<times> pg_error option) list"

text \<open>Modelled from the spec: the "no rows" sentinel of a single-row lookup.\<close>

definition not_found :: pg_error where
  "not_found = PgError ''PGRST116''"

text \<open>Modelled from the spec: a generated key, larger than every key of the table.\<close>

definition fresh_id :: "nat list \<Rightarrow> nat" where
  "fresh_id ids = Suc (fold max ids 0)"

text \<open>Modelled from the spec: the scheduled outcome of the next request.\<close>

definition take_fault :: "store \<Rightarrow> pg_error option \<times> store" where
  "take_fault st =
     (case faults st of [] \<Rightarrow> (None, st) | f # fs \<Rightarrow> (f, st\<lparr>faults := fs\<rparr>))"

definition record_call :: "request \<Rightarrow> pg_error option \<Rightarrow> store \<Rightarrow> store" where
  "record_call rq err st = st\<lparr>log := log st @ [(rq, err)]\<rparr>"

text \<open>
  Modelled from the spec: row lookup by an equality filter, returning at most one row or
  the "not found" sentinel; a failed request returns its error and no row. Where several
  rows match, the first is returned (the invariants of the data model leave at most one).
\<close>

definition lookup :: "('r \<Rightarrow> bool) \<Rightarrow> 'r list \<Rightarrow> pg_error option \<Rightarrow> 'r response" where
  "lookup matches rows f =
     (case f of
        Some e \<Rightarrow> \<lparr>data = None, error = Some e\<rparr>
      | None \<Rightarrow>
          (case find matches rows of
             None \<Rightarrow> \<lparr>data = None, error = Some not_found\<rparr>
           | Some r \<Rightarrow> \<lparr>data = Some r, error = None\<rparr>))"

text \<open>
  Modelled from the spec:
  \<^verbatim>\<open>from('chord_variations').select('id').eq('chord_name', chordName).single()\<close>.
\<close>

definition select_variation :: "string \<Rightarrow> store \<Rightarrow> chord_variation response \<times> store" where
  "select_variation chordName st =
     (let (f, st1) = take_fault st;
          resp = lookup (\<lambda>r. var_chord_name r = chordName) (chord_variations st1) f
      in (resp, record_call (SelectVariation chordName) (error resp) st1))"

text \<open>
  Modelled from the spec: row insert returning the created row with its generated key;
  a failed insert leaves the table as it is.
\<close>

definition insert_variation :: "string \<Rightarrow> store \<Rightarrow> chord_variation response \<times> store" where
  "insert_variation chordName st =
     (let (f, st1) = take_fault st
      in case f of
           Some e \<Rightarrow>
             (\<lparr>data = None, error = Some e\<rparr>, record_call (InsertVariation chordName) (Some e) st1)
         | None \<Rightarrow>
             (let row = \<lparr>var_id = fresh_id (map var_id (chord_variations st1)),
                        var_chord_name = chordName\<rparr>
              in (\<lparr>data = Some row, error = None\<rparr>,
                  record_call (InsertVariation chordName) None
                    (st1\<lparr>chord_variations := chord_variations st1 @ [row]\<rparr>))))"

text \<open>
  Modelled from the spec:
  \<^verbatim>\<open>from('chord_positions').select('id').eq('chord_name', chordName).eq('fret_position', fretPosition).single()\<close>.
\<close>

definition select_position ::
  "string \<Rightarrow> string \<Rightarrow> store \<Rightarrow> chord_position response \<times> store" where
  "select_position chordName fretPosition st =
     (let (f, st1) = take_fault st;
          resp = lookup (\<lambda>r. pos_chord_name r = chordName \<and> pos_fret_position r = fretPosition)
                   (chord_positions st1) f
      in (resp, record_call (SelectPosition chordName fretPosition) (error resp) st1))"

text \<open>
  Modelled from the spec: the insert into \<^verbatim>\<open>chord_positions\<close>; the store generates
  \<open>pos_id\<close>, whatever the row passed in holds there.
\<close>

definition insert_position :: "chord_position \<Rightarrow> store \<Rightarrow> chord_position response \<times> store" where
  "insert_position new st =
     (let (f, st1) = take_fault st;
          rq = InsertPosition (pos_chord_name new) (pos_fret_position new)
      in case f of
           Some e \<Rightarrow> (\<lparr>data = None, error = Some e\<rparr>, record_call rq (Some e) st1)
         | None \<Rightarrow>
             (let row = new\<lparr>pos_id := fresh_id (map pos_id (chord_positions st1))\<rparr>
              in (\<lparr>data = Some row, error = None\<rparr>,
                  record_call rq None (st1\<lparr>chord_positions := chord_positions st1 @ [row]\<rparr>))))"

text \<open>Modelled from the spec: full table read (the order of the rows is only printed).\<close>

definition select_all_variations :: "store \<Rightarrow> chord_variation list response \<times> store" where
  "select_all_variations st =
     (let (f, st1) = take_fault st;
          resp = (case f of
                    Some e \<Rightarrow> \<lparr>data = None, error = Some e\<rparr>
                  | None \<Rightarrow> \<lparr>data = Some (chord_variations st1), error = None\<rparr>)
      in (resp, record_call SelectAllVariations (error resp) st1))"

definition select_all_positions :: "store \<Rightarrow> chord_position list response \<times> store" where
  "select_all_positions st =
     (let (f, st1) = take_fault st;
          resp = (case f of
                    Some e \<Rightarrow> \<lparr>data = None, error = Some e\<rparr>
                  | None \<Rightarrow> \<lparr>data = Some (chord_positions st1), error = None\<rparr>)
      in (resp, record_call SelectAllPositions (error resp) st1))"

subsection \<open>migrateChordData\<close>

text \<open>\<^verbatim>\<open>[...new Set(xs)]\<close>: the distinct elements, in the order they first occur.\<close>

definition set_add :: "'a list \<Rightarrow> 'a \<Rightarrow> 'a list" where
  "set_add s x = (if x \<in> set s then s else s @ [x])"

definition new_Set :: "'a list \<Rightarrow> 'a list" where
  "new_Set xs = foldl set_add [] xs"

text \<open>
  A component of a destructured array inside a template literal or a query filter:
  \<^verbatim>\<open>undefined\<close> reads as the string \<^verbatim>\<open>undefined\<close> there. The keys the script
  splits all have two components (lemma \<open>position_key_parts\<close> below), so none is
  \<^verbatim>\<open>undefined\<close>.
\<close>

definition str :: "string option \<Rightarrow> string" where
  "str v = (case v of None \<Rightarrow> ''undefined'' | Some s \<Rightarrow> s)"

text \<open>What is thrown into the \<^verbatim>\<open>catch\<close>: a response's error, or a \<^verbatim>\<open>TypeError\<close> of the runtime.\<close>

datatype thrown = Thrown pg_error | TypeError

text \<open>\<^verbatim>\<open>checkError && checkError.code !== 'PGRST116'\<close>, giving the error to throw.\<close>

definition check_fatal :: "pg_error option \<Rightarrow> pg_error option" where
  "check_fatal checkError =
     (case checkError of
        None \<Rightarrow> None
      | Some e \<Rightarrow> if code e \<noteq> ''PGRST116'' then Some e else None)"

text \<open>The body of the first loop; its value is \<^verbatim>\<open>variationId\<close>.\<close>

definition variation_body :: "string \<Rightarrow> store \<Rightarrow> (thrown + nat) \<times> store" where
  "variation_body chordName st =
     (let (r, st1) = select_variation chordName st
      in case check_fatal (error r) of
           Some e \<Rightarrow> (Inl (Thrown e), st1)
         | None \<Rightarrow>
             (case data r of
                Some existingVariation \<Rightarrow> (Inr (var_id existingVariation), st1)
              | None \<Rightarrow>
                  (let (r2, st2) = insert_variation chordName st1
                   in case error r2 of
                        Some e \<Rightarrow> (Inl (Thrown e), st2)
                      | None \<Rightarrow>
                          (case data r2 of
                             None \<Rightarrow> (Inl TypeError, st2)
                           | Some newVariation \<Rightarrow> (Inr (var_id newVariation), st2)))))"

text \<open>
  The first loop. The object \<^verbatim>\<open>chordVariations\<close> is a map from chord names to keys
  (the properties every object inherits, such as \<^verbatim>\<open>constructor\<close>, are left out:
  chord names are not among them).
\<close>

fun variations_loop ::
  "string list \<Rightarrow> (string \<rightharpoonup> nat) \<Rightarrow> store \<Rightarrow> (thrown + (string \<rightharpoonup> nat)) \<times> store" where
  "variations_loop [] chordVariations st = (Inr chordVariations, st)"
| "variations_loop (chordName # rest) chordVariations st =
     (case variation_body chordName st of
        (Inl e, st1) \<Rightarrow> (Inl e, st1)
      | (Inr variationId, st1) \<Rightarrow>
          variations_loop rest (chordVariations(chordName \<mapsto> variationId)) st1)"

text \<open>
  The body of the second loop: the composite key is split at every \<^verbatim>\<open>-\<close> and the
  first two pieces are taken for \<^verbatim>\<open>chordName\<close> and \<^verbatim>\<open>fretPosition\<close>.
\<close>

definition position_body :: "(string \<rightharpoonup> nat) \<Rightarrow> string \<Rightarrow> store \<Rightarrow> (thrown + unit) \<times> store" where
  "position_body chordVariations chordPosition st =
     (let parts = split CHR ''-'' chordPosition;
          chordName = str (index parts 0);
          fretPosition = str (index parts 1);
          variationId = chordVariations chordName;
          (r, st1) = select_position chordName fretPosition st
      in case check_fatal (error r) of
           Some e \<Rightarrow> (Inl (Thrown e), st1)
         | None \<Rightarrow>
             (case data r of
                Some existingPosition \<Rightarrow> (Inr (), st1)
              | None \<Rightarrow>
                  (let chordPositionFullName = chordName @ ''-'' @ fretPosition;
                       (r2, st2) =
                         insert_position
                           \<lparr>pos_id = 0,
                            chord_variation_id = variationId,
                            pos_chord_name = chordName,
                            pos_fret_position = fretPosition,
                            chord_position_full_name = chordPositionFullName,
                            aws_svg_url_light =
                              ''https://example.com/svg/'' @ chordPositionFullName @ ''-light.svg'',
                            aws_svg_url_dark =
                              ''https://example.com/svg/'' @ chordPositionFullName @ ''-dark.svg''\<rparr>
                           st1
                   in case error r2 of
                        Some e \<Rightarrow> (Inl (Thrown e), st2)
                      | None \<Rightarrow> (Inr (), st2))))"

fun positions_loop ::
  "string list \<Rightarrow> (string \<rightharpoonup> nat) \<Rightarrow> store \<Rightarrow> (thrown + unit) \<times> store" where
  "positions_loop [] chordVariations st = (Inr (), st)"
| "positions_loop (chordPosition # rest) chordVariations st =
     (case position_body chordVariations chordPosition st of
        (Inl e, st1) \<Rightarrow> (Inl e, st1)
      | (Inr u, st1) \<Rightarrow> positions_loop rest chordVariations st1)"

text \<open>
  Step 4: both tables are read, then \<^verbatim>\<open>variations.length\<close> and
  \<^verbatim>\<open>positions.length\<close> are printed, a \<^verbatim>\<open>TypeError\<close> when a read gave no data.
\<close>

definition verify :: "store \<Rightarrow> thrown option \<times> store" where
  "verify st =
     (let (variations, st1) = select_all_variations st;
          (positions, st2) = select_all_positions st1
      in if data variations = None \<or> data positions = None then (Some TypeError, st2)
         else (None, st2))"

text \<open>\<^verbatim>\<open>`${item.chord_name}-${item.fret_position}`\<close>.\<close>

definition position_key :: "caption \<Rightarrow> string" where
  "position_key item = chord_name item @ ''-'' @ fret_position item"

text \<open>
  The procedure, on the caption list held in \<^verbatim>\<open>chordCaptionData\<close>. Its value is
  what the \<^verbatim>\<open>catch\<close> received (\<open>None\<close> when the run completed) and the store it
  leaves.
\<close>

definition migrateChordData :: "caption list \<Rightarrow> store \<Rightarrow> thrown option \<times> store" where
  "migrateChordData captions st =
     (let uniqueChordNames = new_Set (map chord_name captions)
      in case variations_loop uniqueChordNames Map.empty st of
           (Inl e, st1) \<Rightarrow> (Some e, st1)
         | (Inr chordVariations, st1) \<Rightarrow>
             (let uniqueChordPositions = new_Set (map position_key captions)
              in case positions_loop uniqueChordPositions chordVariations st1 of
                   (Inl e, st2) \<Rightarrow> (Some e, st2)
                 | (Inr u, st2) \<Rightarrow> verify st2))"

text \<open>The store with both tables empty, every request served, nothing logged.\<close>

definition empty_store :: store where
  "empty_store = \<lparr>chord_variations = [], chord_positions = [], faults = [], log = []\<rparr>"

subsection \<open>Notions used in the statements\<close>

type_synonym call = "request \<times> pg_error option"

text \<open>The single-row lookups, the inserts, and the insert a lookup is followed by when it finds nothing.\<close>

fun lookup_request :: "request \<Rightarrow> bool" where
  "lookup_request (SelectVariation n) = True"
| "lookup_request (SelectPosition n f) = True"
| "lookup_request rq = False"

fun insert_request :: "request \<Rightarrow> bool" where
  "insert_request (InsertVariation n) = True"
| "insert_request (InsertPosition n f) = True"
| "insert_request rq = False"

fun insert_for :: "request \<Rightarrow> request" where
  "insert_for (SelectVariation n) = InsertVariation n"
| "insert_for (SelectPosition n f) = InsertPosition n f"
| "insert_for rq = rq"

text \<open>A response error that is the "no rows" sentinel.\<close>

definition sentinel :: "pg_error option \<Rightarrow> bool" where
  "sentinel err = (case err of None \<Rightarrow> False | Some e \<Rightarrow> code e = ''PGRST116'')"

text \<open>A lookup answered with the sentinel.\<close>

definition sentinel_lookup :: "call \<Rightarrow> bool" where
  "sentinel_lookup c = (lookup_request (fst c) \<and> sentinel (snd c))"

text \<open>A lookup answered with any other error, or an insert answered with an error.\<close>

definition fatal_call :: "call \<Rightarrow> bool" where
  "fatal_call c =
     (snd c \<noteq> None \<and> (insert_request (fst c) \<or> (lookup_request (fst c) \<and> \<not> sentinel (snd c))))"

text \<open>
  The shape of a run's requests: a fatal call is the last one, and a lookup answered with
  the sentinel is followed at once by the insert of what it looked for.
\<close>

fun wf_calls :: "call list \<Rightarrow> bool" where
  "wf_calls [] = True"
| "wf_calls (c # cs) =
     (wf_calls cs
      \<and> (if fatal_call c then cs = []
         else if sentinel_lookup c then (case cs of [] \<Rightarrow> False | d # ds \<Rightarrow> fst d = insert_for (fst c))
         else True))"

text \<open>What the served inserts of a list of calls inserted, in order.\<close>

fun inserted_variations :: "call list \<Rightarrow> string list" where
  "inserted_variations [] = []"
| "inserted_variations ((InsertVariation n, None) # cs) = n # inserted_variations cs"
| "inserted_variations (c # cs) = inserted_variations cs"

fun inserted_positions :: "call list \<Rightarrow> (string \<times> string) list" where
  "inserted_positions [] = []"
| "inserted_positions ((InsertPosition n f, None) # cs) = (n, f) # inserted_positions cs"
| "inserted_positions (c # cs) = inserted_positions cs"

text \<open>The requests made between two states of the store.\<close>

definition calls_since :: "store \<Rightarrow> store \<Rightarrow> call list" where
  "calls_since st st' = drop (length (log st)) (log st')"

text \<open>The chord names of the variations, and the (name, position) pairs of the positions.\<close>

definition names_of :: "store \<Rightarrow> string list" where
  "names_of st = map var_chord_name (chord_variations st)"

definition pair_of :: "chord_position \<Rightarrow> string \<times> string" where
  "pair_of r = (pos_chord_name r, pos_fret_position r)"

definition pairs_of :: "store \<Rightarrow> (string \<times> string) list" where
  "pairs_of st = map pair_of (chord_positions st)"

text \<open>What was thrown, of the result of a loop.\<close>

definition thrown_of :: "(thrown + 'a) \<Rightarrow> thrown option" where
  "thrown_of r = (case r of Inl e \<Rightarrow> Some e | Inr v \<Rightarrow> None)"

text \<open>
  How a run's requests and its outcome fit: the requests have the shape above; a run that
  threw a response's error ends with the fatal call that returned it, and any other run
  has no fatal call.
\<close>

definition run_result :: "call list \<Rightarrow> thrown option \<Rightarrow> bool" where
  "run_result calls res =
     (wf_calls calls
      \<and> (case res of
           Some (Thrown e) \<Rightarrow> calls \<noteq> [] \<and> fatal_call (last calls) \<and> snd (last calls) = Some e
         | _ \<Rightarrow> list_all (\<lambda>c. \<not> fatal_call c) calls))"

text \<open>
  What a run that made the requests \<open>calls\<close> did to the store: they are logged, as many
  scheduled outcomes are used up, and both tables keep their rows and gain one row for
  each served insert, in order.
\<close>

definition effect :: "store \<Rightarrow> store \<Rightarrow> call list \<Rightarrow> bool" where
  "effect st st' calls =
     (log st' = log st @ calls
      \<and> faults st' = drop (length calls) (faults st)
      \<and> (\<exists>vs. chord_variations st' = chord_variations st @ vs
              \<and> map var_chord_name vs = inserted_variations calls)
      \<and> (\<exists>ps. chord_positions st' = chord_positions st @ ps
              \<and> map pair_of ps = inserted_positions calls))"

text \<open>
  The two components the second loop destructures from a composite key, and the row it
  builds for the key, with the key the store generates.
\<close>

definition key_pair :: "string \<Rightarrow> string \<times> string" where
  "key_pair chordPosition =
     (str (index (split CHR ''-'' chordPosition) 0), str (index (split CHR ''-'' chordPosition) 1))"

definition built_position :: "(string \<rightharpoonup> nat) \<Rightarrow> string \<Rightarrow> nat \<Rightarrow> chord_position" where
  "built_position chordVariations chordPosition key =
     (let chordName = fst (key_pair chordPosition);
          fretPosition = snd (key_pair chordPosition);
          chordPositionFullName = chordName @ ''-'' @ fretPosition
      in \<lparr>pos_id = key,
          chord_variation_id = chordVariations chordName,
          pos_chord_name = chordName,
          pos_fret_position = fretPosition,
          chord_position_full_name = chordPositionFullName,
          aws_svg_url_light = ''https://example.com/svg/'' @ chordPositionFullName @ ''-light.svg'',
          aws_svg_url_dark = ''https://example.com/svg/'' @ chordPositionFullName @ ''-dark.svg''\<rparr>)"

text \<open>The name-to-key mapping holds, for a name, the key of the row a lookup of it finds.\<close>

definition linked :: "(string \<rightharpoonup> nat) \<Rightarrow> store \<Rightarrow> string \<Rightarrow> bool" where
  "linked chordVariations st n =
     (case find (\<lambda>r. var_chord_name r = n) (chord_variations st) of
        None \<Rightarrow> False
      | Some r \<Rightarrow> chordVariations n = Some (var_id r))"

text \<open>Captions whose names and positions are free of the separator of the composite key.\<close>

definition no_dash :: "string \<Rightarrow> bool" where
  "no_dash s = (CHR ''-'' \<notin> set s)"

definition dash_free :: "caption list \<Rightarrow> bool" where
  "dash_free captions =
     list_all (\<lambda>item. no_dash (chord_name item) \<and> no_dash (fret_position item)) captions"

section \<open>Sample inputs\<close>

definition freebird_profile :: "int \<Rightarrow> profile" where
  "freebird_profile used =
     \<lparr>id' = Some ''u1'', email = Some ''ann@example.com'', full_name = Some ''Ann'',
      subscription_tier = Some ''freebird'', subscription_status = Some ''active'',
      daily_searches_used = Some used, last_search_reset = Some ''2024-01-15T08:30:00''\<rparr>"

definition roadie_profile :: profile where
  "roadie_profile =
     \<lparr>id' = Some ''u2'', email = Some ''@example.com'', full_name = None,
      subscription_tier = Some ''roadie'', subscription_status = Some ''active'',
      daily_searches_used = Some 3, last_search_reset = Some ''2024-01-14T23:10:00''\<rparr>"

text \<open>A settings row that exists and whose \<^verbatim>\<open>setting_value\<close> is \<^verbatim>\<open>null\<close>.\<close>

definition null_setting_row :: "settings_row response" where
  "null_setting_row = \<lparr>data = Some \<lparr>setting_value = None\<rparr>, error = None\<rparr>"

text \<open>
  A store whose first four requests and sixth are served, whose fifth is answered with
  the sentinel and whose seventh fails with another error.
\<close>

definition faulty_store :: store where
  "faulty_store =
     empty_store\<lparr>faults := [None, None, None, None, Some (PgError ''PGRST116''), None,
                            Some (PgError ''57014'')]\<rparr>"

text \<open>Caption lists, in place of the sample data, with a \<^verbatim>\<open>-\<close> in a position and in a chord name.\<close>

definition dashed_position :: "caption list" where
  "dashed_position =
     [\<lparr>chord_name = ''A#'', fret_position = ''Pos3-v2'', start_time = ''4:24'', end_time = ''4:34''\<rparr>]"

definition dashed_name :: "caption list" where
  "dashed_name =
     [\<lparr>chord_name = ''Cm7'', fret_position = ''Open'', start_time = ''0:21'', end_time = ''1:19''\<rparr>,
      \<lparr>chord_name = ''Cm7-5'', fret_position = ''Open'', start_time = ''1:21'', end_time = ''2:19''\<rparr>]"

definition dashed_pairs :: "caption list" where
  "dashed_pairs =
     [\<lparr>chord_name = ''A#'', fret_position = ''Pos3-v1'', start_time = ''4:24'', end_time = ''4:34''\<rparr>,
      \<lparr>chord_name = ''A#'', fret_position = ''Pos3-v2'', start_time = ''5:24'', end_time = ''5:34''\<rparr>]"

text \<open>A signed-in user, and two loads of one profile whose reset date is the day before.\<close>

definition signed_in :: "user option" where
  "signed_in = Some \<lparr>user_id = Some ''u2''\<rparr>"

definition stale_loads :: "render list" where
  "stale_loads =
     [(''2024-01-15'', signed_in, Some roadie_profile),
      (''2024-01-15'', signed_in, Some roadie_profile)]"

section \<open>Properties of contexts/UserContext.js\<close>

subsection \<open>Strings\<close>

lemma split_not_Nil: "split sep s \<noteq> []"
  by (induction s) (auto split: list.splits)

lemma index_split_0: "index (split sep s) 0 = Some (before_first sep s)"
  by (induction s) (auto simp: before_first_def split: list.splits)

subsection \<open>The limit resolver\<close>

text \<open>A fetch that errors sets all three categories to the defaults together.\<close>

lemma fetchDailyLimits_error:
  "error resp = Some e \<Longrightarrow> fetchDailyLimits resp dailyLimits = Some default_limits"
  by (simp add: fetchDailyLimits_def)

text \<open>
  With a \<^verbatim>\<open>setting_value\<close>, each category is the remote one when present and its own
  default otherwise, whatever the other two are.
\<close>

lemma fetchDailyLimits_per_category:
  assumes "error resp = None" "data resp = Some row" "setting_value row = Some sv"
  shows "\<exists>dl. fetchDailyLimits resp dailyLimits = Some dl
    \<and> daily_search_limits dl =
        (case sv_daily_search_limits sv of None \<Rightarrow> default_search_limits | Some m \<Rightarrow> m)
    \<and> daily_watch_time_limits dl =
        (case sv_daily_watch_time_limits sv of None \<Rightarrow> default_watch_time_limits | Some m \<Rightarrow> m)
    \<and> favorite_limits dl =
        (case sv_favorite_limits sv of None \<Rightarrow> default_favorite_limits | Some m \<Rightarrow> m)"
  using assms by (simp add: fetchDailyLimits_def limits_or_def)

text \<open>
  C2: the defaults are said to apply also when the \<^verbatim>\<open>setting_value\<close> field is missing.
  On a row whose \<^verbatim>\<open>setting_value\<close> is \<^verbatim>\<open>null\<close> the fetch sets nothing: from the
  initial state the limits stay unloaded, and a roadie user then reads a search limit of
  0 and a watch time limit of 60, where the defaults are 24 and 180.
\<close>

theorem fetchDailyLimits_missing_setting_value:
  "fetchDailyLimits null_setting_row None = None
   \<and> getDailySearchLimit (fetchDailyLimits null_setting_row None) (Some roadie_profile) = 0
   \<and> default_search_limits ''roadie'' = Some 24
   \<and> getDailyWatchTimeLimit (fetchDailyLimits null_setting_row None) (Some roadie_profile) = 60
   \<and> default_watch_time_limits ''roadie'' = Some 180"
  by (simp add: fetchDailyLimits_def null_setting_row_def getDailySearchLimit_def
      getDailyWatchTimeLimit_def default_search_limits_def default_watch_time_limits_def)

subsection \<open>checkDailySearchLimit\<close>

text \<open>
  C3: \<open>checkDailySearchLimit\<close> is true exactly when the resolved limit is \<open>-1\<close> or the
  used count is strictly below it, so it is false whenever the limit is at least 0 and
  the used count has reached it; with loaded limits and a tier whose entry is \<open>l\<close>,
  the resolved limit can be read as \<open>l\<close> itself.
\<close>

theorem checkDailySearchLimit_spec:
  "(checkDailySearchLimit dailyLimits profile \<longleftrightarrow>
      getDailySearchLimit dailyLimits profile = - 1
      \<or> used_of profile < getDailySearchLimit dailyLimits profile)
   \<and> (0 \<le> getDailySearchLimit dailyLimits profile
        \<and> getDailySearchLimit dailyLimits profile \<le> used_of profile
      \<longrightarrow> \<not> checkDailySearchLimit dailyLimits profile)
   \<and> (dailyLimits = Some dl \<and> tier_of profile = Some t \<and> t \<noteq> []
        \<and> daily_search_limits dl t = Some l
      \<longrightarrow> (checkDailySearchLimit dailyLimits profile \<longleftrightarrow> l = - 1 \<or> used_of profile < l))"
  by (auto simp: checkDailySearchLimit_def getDailySearchLimit_def num_or_def Let_def)

text \<open>The freebird tier under the default limits: 8 used of 8 is refused, 7 of 8 allowed.\<close>

theorem checkDailySearchLimit_spec_witness:
  "getDailySearchLimit (Some default_limits) (Some (freebird_profile 8)) = 8
   \<and> \<not> checkDailySearchLimit (Some default_limits) (Some (freebird_profile 8))
   \<and> checkDailySearchLimit (Some default_limits) (Some (freebird_profile 7))"
proof -
  have limit: "getDailySearchLimit (Some default_limits) (Some (freebird_profile u)) = 8" for u
    by (simp add: getDailySearchLimit_def tier_of_def freebird_profile_def default_limits_def
        default_search_limits_def num_or_def)
  have used: "used_of (Some (freebird_profile 8)) = 8" "used_of (Some (freebird_profile 7)) = 7"
    by (simp_all add: used_of_def searches_used_of_def freebird_profile_def num_or_def)
  show ?thesis
    using checkDailySearchLimit_spec [of "Some default_limits" "Some (freebird_profile 8)"]
      checkDailySearchLimit_spec [of "Some default_limits" "Some (freebird_profile 7)"]
      limit used
    by simp
qed

subsection \<open>getDailyWatchTimeLimit\<close>

text \<open>
  C9: \<open>getDailyWatchTimeLimit\<close> never returns 0; it returns 60 whenever the limits are
  unloaded, the tier is unset, or the tier's entry is absent or 0; and an entry of 0 gives
  the same result as no entry.
\<close>

theorem getDailyWatchTimeLimit_never_zero:
  "getDailyWatchTimeLimit dailyLimits profile \<noteq> 0
   \<and> (dailyLimits = None \<or> \<not> truthy_str (tier_of profile)
       \<or> (\<exists>dl t. dailyLimits = Some dl \<and> tier_of profile = Some t
             \<and> (daily_watch_time_limits dl t = None \<or> daily_watch_time_limits dl t = Some 0))
      \<longrightarrow> getDailyWatchTimeLimit dailyLimits profile = 60)
   \<and> getDailyWatchTimeLimit
        (Some (dl\<lparr>daily_watch_time_limits := (daily_watch_time_limits dl)(t \<mapsto> 0)\<rparr>)) profile
       = getDailyWatchTimeLimit
           (Some (dl\<lparr>daily_watch_time_limits := (daily_watch_time_limits dl)(t := None)\<rparr>)) profile"
  by (auto simp: getDailyWatchTimeLimit_def num_or_def truthy_str_def split: option.splits)

theorem getDailyWatchTimeLimit_never_zero_witness:
  "getDailyWatchTimeLimit
     (Some (default_limits\<lparr>daily_watch_time_limits := default_watch_time_limits(''roadie'' \<mapsto> 0)\<rparr>))
     (Some roadie_profile) = 60
   \<and> getDailyWatchTimeLimit None (Some roadie_profile) = 60"
proof -
  let ?dl = "default_limits\<lparr>daily_watch_time_limits := default_watch_time_limits(''roadie'' \<mapsto> 0)\<rparr>"
  have "tier_of (Some roadie_profile) = Some ''roadie''"
    by (simp add: tier_of_def roadie_profile_def)
  moreover have "daily_watch_time_limits ?dl ''roadie'' = Some 0"
    by simp
  ultimately show ?thesis
    using getDailyWatchTimeLimit_never_zero [of "Some ?dl" "Some roadie_profile"]
      getDailyWatchTimeLimit_never_zero [of None "Some roadie_profile"]
    by blast
qed

subsection \<open>userName\<close>

text \<open>
  C10, as stated: with no full name and an email present, the name is the part of the
  email before the first \<^verbatim>\<open>@\<close>. For the email \<^verbatim>\<open>@example.com\<close> that part is empty,
  and the name is \<^verbatim>\<open>User\<close>.
\<close>

theorem userName_counterexample:
  "full_name roadie_profile = None
   \<and> email roadie_profile = Some ''@example.com''
   \<and> before_first CHR ''@'' ''@example.com'' = []
   \<and> userName (Some roadie_profile) = ''User''"
  by (simp add: roadie_profile_def userName_def str_or_def truthy_str_def email_local_part_def
      full_name_of_def email_of_def before_first_def)

text \<open>
  C10, amended: the name is the full name when that is non-empty; otherwise the part of
  the email before the first \<^verbatim>\<open>@\<close> when the email is present and that part is
  non-empty; otherwise \<^verbatim>\<open>User\<close>, in particular when no profile is loaded.
\<close>

theorem userName_chain:
  "(truthy_str (full_name_of profile) \<longrightarrow> Some (userName profile) = full_name_of profile)
   \<and> (\<not> truthy_str (full_name_of profile) \<and> email_of profile = Some e
        \<and> before_first CHR ''@'' e \<noteq> []
      \<longrightarrow> userName profile = before_first CHR ''@'' e)
   \<and> (\<not> truthy_str (full_name_of profile)
        \<and> (email_of profile = None
            \<or> (\<exists>e. email_of profile = Some e \<and> before_first CHR ''@'' e = []))
      \<longrightarrow> userName profile = ''User'')
   \<and> userName None = ''User''"
  by (auto simp: userName_def str_or_def truthy_str_def email_local_part_def index_split_0
      full_name_of_def email_of_def split: option.splits)

theorem userName_chain_witness:
  "userName (Some (freebird_profile 0)) = ''Ann''
   \<and> userName (Some ((freebird_profile 0)\<lparr>full_name := Some []\<rparr>)) = ''ann''
   \<and> userName (Some ((freebird_profile 0)\<lparr>full_name := None, email := None\<rparr>)) = ''User''"
proof -
  have a: "truthy_str (full_name_of (Some (freebird_profile 0)))"
      "full_name_of (Some (freebird_profile 0)) = Some ''Ann''"
    by (simp_all add: truthy_str_def full_name_of_def freebird_profile_def)
  have b: "\<not> truthy_str (full_name_of (Some ((freebird_profile 0)\<lparr>full_name := Some []\<rparr>)))"
      "email_of (Some ((freebird_profile 0)\<lparr>full_name := Some []\<rparr>)) = Some ''ann@example.com''"
      "before_first CHR ''@'' ''ann@example.com'' = ''ann''"
    by (simp_all add: truthy_str_def full_name_of_def email_of_def freebird_profile_def
        before_first_def)
  have c: "\<not> truthy_str
               (full_name_of (Some ((freebird_profile 0)\<lparr>full_name := None, email := None\<rparr>)))"
      "email_of (Some ((freebird_profile 0)\<lparr>full_name := None, email := None\<rparr>)) = None"
    by (simp_all add: truthy_str_def full_name_of_def email_of_def freebird_profile_def)
  show ?thesis
    using userName_chain [of "Some (freebird_profile 0)"] a
      userName_chain [of "Some ((freebird_profile 0)\<lparr>full_name := Some []\<rparr>)"
        "''ann@example.com''"] b
      userName_chain [of "Some ((freebird_profile 0)\<lparr>full_name := None, email := None\<rparr>)"] c
    by simp
qed

subsection \<open>Daily reset\<close>

text \<open>
  One run of the effect's body invokes \<^verbatim>\<open>reset_daily_searches\<close> if and only if
  \<^verbatim>\<open>last_search_reset\<close> is set, its date string differs from today's, and the user has
  an id; it invokes the procedure at most once.
\<close>

lemma dailyResetEffect_iff:
  "(''reset_daily_searches'' \<in> set (dailyResetEffect toDateString today user profile) \<longleftrightarrow>
      (\<exists>s. last_search_reset_of profile = Some s \<and> s \<noteq> [] \<and> toDateString s \<noteq> today)
      \<and> truthy_str (user_id_of user))
   \<and> (last_search_reset_of profile = Some s \<and> toDateString s = today
      \<longrightarrow> dailyResetEffect toDateString today user profile = [])
   \<and> length (dailyResetEffect toDateString today user profile) \<le> 1"
  by (auto simp: dailyResetEffect_def resetDailySearchCount_def split: option.splits)

text \<open>Each render of a sequence invokes what one render does, from the dependency before it.\<close>

lemma dailyResetOnRenders_nth:
  assumes "i < length rs" "rs ! i = (today, user, profile)"
  shows "dailyResetOnRenders toDateString prev rs ! i =
    dailyResetOnRender toDateString today user (previous_dependency prev rs i) profile"
  using assms
proof (induction rs arbitrary: prev i)
  case Nil
  then show ?case by simp
next
  case (Cons r rs)
  obtain t u p where r: "r = (t, u, p)"
    by (cases r)
  show ?case
  proof (cases i)
    case 0
    with Cons.prems r show ?thesis
      by (simp add: previous_dependency_def)
  next
    case (Suc j)
    with Cons.prems have j: "j < length rs" "rs ! j = (today, user, profile)"
      by simp_all
    have "previous_dependency (Some (last_search_reset_of p)) rs j
        = previous_dependency prev (r # rs) (Suc j)"
      by (cases j) (simp_all add: previous_dependency_def r)
    with Cons.IH [OF j, of "Some (last_search_reset_of p)"] Suc r show ?thesis
      by simp
  qed
qed

text \<open>
  C8, as stated: on every profile load or update the reset is triggered if and only if
  the date of \<^verbatim>\<open>last_search_reset\<close> differs from the current date. Three loads where
  it is not, the date string being the first ten characters of an ISO timestamp and the
  current date 15 January: with no signed-in user, a reset date of the 14th triggers
  nothing; with a signed-in user, the first load of a profile reset on the 14th triggers
  the reset and a second load with the same reset date triggers nothing; and a profile
  with no reset date triggers nothing.
\<close>

theorem dailyResetOnRenders_counterexample:
  "take 10 ''2024-01-14T23:10:00'' \<noteq> ''2024-01-15''
   \<and> last_search_reset roadie_profile = Some ''2024-01-14T23:10:00''
   \<and> dailyResetOnRenders (take 10) None [(''2024-01-15'', None, Some roadie_profile)] = [[]]
   \<and> dailyResetOnRenders (take 10) None stale_loads = [[''reset_daily_searches''], []]
   \<and> dailyResetOnRenders (take 10) None
        [(''2024-01-15'', signed_in, Some (roadie_profile\<lparr>last_search_reset := None\<rparr>))] = [[]]"
  by (simp add: stale_loads_def signed_in_def roadie_profile_def dailyResetOnRender_def
      dependency_changed_def dailyResetEffect_def resetDailySearchCount_def truthy_str_def
      last_search_reset_of_def user_id_of_def)

text \<open>
  C8, amended: on every profile load or update, the reset is triggered if and only if
  the load changes \<^verbatim>\<open>last_search_reset\<close> from its value at the render before (or is the
  first render), \<^verbatim>\<open>last_search_reset\<close> is set, its date string differs from the
  current one, and the signed-in user has an id; a load with today's date triggers no
  reset, and a load triggers at most one.
\<close>

theorem dailyResetOnRenders_iff:
  assumes "i < length rs" "rs ! i = (today, user, profile)"
  shows "(''reset_daily_searches'' \<in> set (dailyResetOnRenders toDateString prev rs ! i) \<longleftrightarrow>
      dependency_changed (previous_dependency prev rs i) (last_search_reset_of profile)
      \<and> truthy_str (last_search_reset_of profile)
      \<and> (\<exists>s. last_search_reset_of profile = Some s \<and> toDateString s \<noteq> today)
      \<and> truthy_str (user_id_of user))
   \<and> (last_search_reset_of profile = Some s \<and> toDateString s = today
      \<longrightarrow> dailyResetOnRenders toDateString prev rs ! i = [])
   \<and> length (dailyResetOnRenders toDateString prev rs ! i) \<le> 1"
proof -
  have nth: "dailyResetOnRenders toDateString prev rs ! i =
      dailyResetOnRender toDateString today user (previous_dependency prev rs i) profile"
    using assms by (rule dailyResetOnRenders_nth)
  show ?thesis
    unfolding nth dailyResetOnRender_def
    using dailyResetEffect_iff [of toDateString today user profile s]
    by (auto simp: truthy_str_def)
qed

text \<open>
  The two loads of the stale profile: the first triggers the reset; and a load of a
  profile reset today triggers none.
\<close>

theorem dailyResetOnRenders_iff_witness:
  "''reset_daily_searches'' \<in> set (dailyResetOnRenders (take 10) None stale_loads ! 0)
   \<and> dailyResetOnRenders (take 10) None
        [(''2024-01-15'', signed_in, Some (freebird_profile 0))] ! 0 = []"
proof -
  have a: "0 < length stale_loads"
      "stale_loads ! 0 = (''2024-01-15'', signed_in, Some roadie_profile)"
      "dependency_changed (previous_dependency None stale_loads 0)
         (last_search_reset_of (Some roadie_profile))"
      "truthy_str (last_search_reset_of (Some roadie_profile))"
      "last_search_reset_of (Some roadie_profile) = Some ''2024-01-14T23:10:00''"
      "take 10 ''2024-01-14T23:10:00'' \<noteq> ''2024-01-15''"
      "truthy_str (user_id_of signed_in)"
    by (simp_all add: stale_loads_def signed_in_def roadie_profile_def dependency_changed_def
        previous_dependency_def truthy_str_def last_search_reset_of_def user_id_of_def)
  let ?fresh = "[(''2024-01-15'', signed_in, Some (freebird_profile 0))]"
  have b: "0 < length ?fresh"
      "?fresh ! 0 = (''2024-01-15'', signed_in, Some (freebird_profile 0))"
      "last_search_reset_of (Some (freebird_profile 0)) = Some ''2024-01-15T08:30:00''"
      "take 10 ''2024-01-15T08:30:00'' = ''2024-01-15''"
    by (simp_all add: freebird_profile_def last_search_reset_of_def)
  have "''reset_daily_searches'' \<in> set (dailyResetOnRenders (take 10) None stale_loads ! 0)"
    using dailyResetOnRenders_iff [OF a(1,2), of "take 10" None] a(3-7) by blast
  moreover have "dailyResetOnRenders (take 10) None ?fresh ! 0 = []"
    using dailyResetOnRenders_iff [OF b(1,2), of "take 10" None "''2024-01-15T08:30:00''"] b(3,4)
    by blast
  ultimately show ?thesis ..
qed

section \<open>Properties of scripts/migrate-chord-data.js\<close>

subsection \<open>Requests and outcomes, whatever the store answers\<close>

lemmas store_ops = take_fault_def record_call_def lookup_def select_variation_def
  insert_variation_def select_position_def insert_position_def select_all_variations_def
  select_all_positions_def

lemma inserted_variations_append:
  "inserted_variations (a @ b) = inserted_variations a @ inserted_variations b"
  by (induction a rule: inserted_variations.induct) simp_all

lemma inserted_positions_append:
  "inserted_positions (a @ b) = inserted_positions a @ inserted_positions b"
  by (induction a rule: inserted_positions.induct) simp_all

lemma wf_calls_append:
  "wf_calls a \<Longrightarrow> list_all (\<lambda>c. \<not> fatal_call c) a \<Longrightarrow> wf_calls (a @ b) = wf_calls b"
proof (induction a)
  case Nil
  then show ?case by simp
next
  case (Cons c cs)
  then have IH: "wf_calls (cs @ b) = wf_calls b" and c: "\<not> fatal_call c"
    by simp_all
  show ?case
  proof (cases cs)
    case Nil
    with Cons.prems c have "\<not> sentinel_lookup c" by auto
    with c Nil show ?thesis by simp
  next
    case (Cons d ds)
    from Cons.prems(1) c have next_ok: "sentinel_lookup c \<longrightarrow> fst d = insert_for (fst c)"
      unfolding Cons by (cases "sentinel_lookup c") simp_all
    have "wf_calls ((c # cs) @ b) = wf_calls (cs @ b)"
      using c next_ok unfolding Cons by simp
    with IH show ?thesis by simp
  qed
qed

lemma wf_calls_suffix: "wf_calls (a @ b) \<Longrightarrow> wf_calls b"
  by (induction a) simp_all

lemma run_result_append:
  assumes "run_result seg None" "run_result calls res"
  shows "run_result (seg @ calls) res"
proof -
  from assms(1) have seg: "wf_calls seg" "list_all (\<lambda>c. \<not> fatal_call c) seg"
    by (simp_all add: run_result_def)
  then have wf: "wf_calls (seg @ calls) = wf_calls calls"
    by (rule wf_calls_append)
  show ?thesis
  proof (cases res)
    case None
    with assms(2) seg wf show ?thesis by (simp add: run_result_def)
  next
    case (Some t)
    show ?thesis
    proof (cases t)
      case (Thrown e)
      with Some assms(2) seg wf show ?thesis by (simp add: run_result_def)
    next
      case TypeError
      with Some assms(2) seg wf show ?thesis by (simp add: run_result_def)
    qed
  qed
qed

lemma effect_refl: "effect st st []"
  by (simp add: effect_def)

lemma effect_trans:
  assumes "effect st st1 seg" "effect st1 st' calls"
  shows "effect st st' (seg @ calls)"
proof -
  from assms(1) obtain vs ps where 1:
    "log st1 = log st @ seg" "faults st1 = drop (length seg) (faults st)"
    "chord_variations st1 = chord_variations st @ vs" "map var_chord_name vs = inserted_variations seg"
    "chord_positions st1 = chord_positions st @ ps" "map pair_of ps = inserted_positions seg"
    unfolding effect_def by blast
  from assms(2) obtain vs' ps' where 2:
    "log st' = log st1 @ calls" "faults st' = drop (length calls) (faults st1)"
    "chord_variations st' = chord_variations st1 @ vs'" "map var_chord_name vs' = inserted_variations calls"
    "chord_positions st' = chord_positions st1 @ ps'" "map pair_of ps' = inserted_positions calls"
    unfolding effect_def by blast
  have "chord_variations st' = chord_variations st @ (vs @ vs')"
    "map var_chord_name (vs @ vs') = inserted_variations (seg @ calls)"
    "chord_positions st' = chord_positions st @ (ps @ ps')"
    "map pair_of (ps @ ps') = inserted_positions (seg @ calls)"
    using 1 2 by (simp_all add: inserted_variations_append inserted_positions_append)
  moreover have "log st' = log st @ (seg @ calls)"
    "faults st' = drop (length (seg @ calls)) (faults st)"
    using 1 2 by (simp_all add: add.commute)
  ultimately show ?thesis
    unfolding effect_def by blast
qed


lemma select_variation_effect:
  assumes "select_variation n st = (resp, st1)"
  shows "effect st st1 [(SelectVariation n, error resp)]"
    and "error resp = None \<Longrightarrow>
           \<exists>r. data resp = Some r \<and> find (\<lambda>r. var_chord_name r = n) (chord_variations st) = Some r"
    and "error resp \<noteq> None \<Longrightarrow> data resp = None"
  using assms
  by (auto simp: store_ops effect_def Let_def split: list.splits option.splits)

lemma insert_variation_effect:
  assumes "insert_variation n st = (resp, st1)"
  shows "effect st st1 [(InsertVariation n, error resp)]"
    and "error resp = None \<Longrightarrow>
           data resp = Some \<lparr>var_id = fresh_id (map var_id (chord_variations st)), var_chord_name = n\<rparr>
           \<and> chord_variations st1 = chord_variations st @
                [\<lparr>var_id = fresh_id (map var_id (chord_variations st)), var_chord_name = n\<rparr>]"
  using assms
  by (auto simp: store_ops effect_def Let_def split: list.splits option.splits)

lemma check_fatal_None: "check_fatal err = None \<longleftrightarrow> err = None \<or> sentinel err"
  by (auto simp: check_fatal_def sentinel_def split: option.splits)

lemma check_fatal_Some: "check_fatal err = Some e \<longleftrightarrow> err = Some e \<and> \<not> sentinel err"
  by (auto simp: check_fatal_def sentinel_def split: option.splits)

lemma variation_body_effect:
  assumes "variation_body n st = (r, st')"
  shows "\<exists>seg. effect st st' seg \<and> run_result seg (thrown_of r)"
proof -
  obtain resp st1 where sel: "select_variation n st = (resp, st1)"
    by (cases "select_variation n st")
  note e1 = select_variation_effect [OF sel]
  show ?thesis
  proof (cases "check_fatal (error resp)")
    case (Some e)
    then have "error resp = Some e" "\<not> sentinel (Some e)"
      by (auto simp: check_fatal_Some)
    moreover from assms sel Some have "r = Inl (Thrown e)" "st' = st1"
      by (simp_all add: variation_body_def)
    ultimately have "effect st st' [(SelectVariation n, Some e)]"
      "run_result [(SelectVariation n, Some e)] (thrown_of r)"
      using e1(1) by (simp_all add: run_result_def thrown_of_def fatal_call_def)
    then show ?thesis by blast
  next
    case None
    then have ok: "error resp = None \<or> sentinel (error resp)"
      by (simp add: check_fatal_None)
    show ?thesis
    proof (cases "data resp")
      case (Some existing)
      with e1(3) have err: "error resp = None" by (cases "error resp") auto
      from assms sel None Some have "r = Inr (var_id existing)" "st' = st1"
        by (simp_all add: variation_body_def)
      with err have "effect st st' [(SelectVariation n, None)]"
        "run_result [(SelectVariation n, None)] (thrown_of r)"
        using e1(1)
        by (simp_all add: run_result_def thrown_of_def fatal_call_def sentinel_lookup_def sentinel_def)
      then show ?thesis by blast
    next
      case no_data: None
      with e1(2) ok have sent: "sentinel (error resp)" by (cases "error resp") auto
      obtain resp2 st2 where ins: "insert_variation n st1 = (resp2, st2)"
        by (cases "insert_variation n st1")
      note e2 = insert_variation_effect [OF ins]
      have eff: "effect st st2 ([(SelectVariation n, error resp)] @ [(InsertVariation n, error resp2)])"
        using e1(1) e2(1) by (rule effect_trans)
      show ?thesis
      proof (cases "error resp2")
        case (Some e)
        with assms sel None no_data ins have "r = Inl (Thrown e)" "st' = st2"
          by (simp_all add: variation_body_def)
        moreover have "run_result [(SelectVariation n, error resp), (InsertVariation n, Some e)]
            (Some (Thrown e))"
          using sent by (simp add: run_result_def fatal_call_def sentinel_lookup_def)
        ultimately show ?thesis
          using eff Some by (auto simp: thrown_of_def)
      next
        case no_err: None
        with e2(2) obtain row where "data resp2 = Some row" by blast
        with assms sel None no_data ins no_err have "r = Inr (var_id row)" "st' = st2"
          by (simp_all add: variation_body_def)
        moreover have "run_result [(SelectVariation n, error resp), (InsertVariation n, None)] None"
          using sent by (simp add: run_result_def fatal_call_def sentinel_lookup_def)
        ultimately show ?thesis
          using eff no_err by (auto simp: thrown_of_def)
      qed
    qed
  qed
qed


lemma select_position_effect:
  assumes "select_position n f st = (resp, st1)"
  shows "effect st st1 [(SelectPosition n f, error resp)]"
    and "error resp = None \<Longrightarrow>
           \<exists>r. data resp = Some r
             \<and> find (\<lambda>r. pos_chord_name r = n \<and> pos_fret_position r = f) (chord_positions st) = Some r"
    and "error resp \<noteq> None \<Longrightarrow> data resp = None"
  using assms
  by (auto simp: store_ops effect_def Let_def split: list.splits option.splits)

lemma insert_position_effect:
  assumes "insert_position new st = (resp, st1)"
  shows "effect st st1 [(InsertPosition (pos_chord_name new) (pos_fret_position new), error resp)]"
    and "error resp = None \<Longrightarrow>
           chord_positions st1 = chord_positions st @
                [new\<lparr>pos_id := fresh_id (map pos_id (chord_positions st))\<rparr>]"
  using assms
  by (auto simp: store_ops effect_def Let_def pair_of_def split: list.splits option.splits)

lemma position_body_effect:
  assumes "position_body cv k st = (r, st')"
  shows "\<exists>seg. effect st st' seg \<and> run_result seg (thrown_of r)"
proof -
  let ?n = "str (index (split CHR ''-'' k) 0)"
  let ?f = "str (index (split CHR ''-'' k) 1)"
  let ?new = "\<lparr>pos_id = 0, chord_variation_id = cv ?n, pos_chord_name = ?n, pos_fret_position = ?f,
     chord_position_full_name = ?n @ ''-'' @ ?f,
     aws_svg_url_light = ''https://example.com/svg/'' @ (?n @ ''-'' @ ?f) @ ''-light.svg'',
     aws_svg_url_dark = ''https://example.com/svg/'' @ (?n @ ''-'' @ ?f) @ ''-dark.svg''\<rparr>"
  obtain n f where n: "n = ?n" and f: "f = ?f"
    by simp
  obtain resp st1 where sel: "select_position ?n ?f st = (resp, st1)"
    by (cases "select_position ?n ?f st")
  obtain resp2 st2 where ins: "insert_position ?new st1 = (resp2, st2)"
    by (cases "insert_position ?new st1")
  have body: "(r, st') =
     (case check_fatal (error resp) of
        Some e \<Rightarrow> (Inl (Thrown e), st1)
      | None \<Rightarrow>
          (case data resp of
             Some existingPosition \<Rightarrow> (Inr (), st1)
           | None \<Rightarrow> (case error resp2 of Some e \<Rightarrow> (Inl (Thrown e), st2) | None \<Rightarrow> (Inr (), st2))))"
    using assms sel ins
    by (auto simp: position_body_def Let_def split: option.splits)
  have new: "pos_chord_name ?new = n" "pos_fret_position ?new = f"
    by (simp_all add: n f)
  note sel = sel [folded n f]
  note e1 = select_position_effect [OF sel]
  note e2 = insert_position_effect [OF ins, unfolded new]
  show ?thesis
  proof (cases "check_fatal (error resp)")
    case (Some e)
    then have "error resp = Some e" "\<not> sentinel (Some e)"
      by (auto simp: check_fatal_Some)
    moreover from body Some have "r = Inl (Thrown e)" "st' = st1"
      by simp_all
    ultimately have "effect st st' [(SelectPosition n f, Some e)]"
      "run_result [(SelectPosition n f, Some e)] (thrown_of r)"
      using e1(1) by (simp_all add: run_result_def thrown_of_def fatal_call_def)
    then show ?thesis by blast
  next
    case None
    then have ok: "error resp = None \<or> sentinel (error resp)"
      by (simp add: check_fatal_None)
    show ?thesis
    proof (cases "data resp")
      case (Some existing)
      with e1(3) have err: "error resp = None" by (cases "error resp") auto
      from body None Some have "r = Inr ()" "st' = st1"
        by simp_all
      with err have "effect st st' [(SelectPosition n f, None)]"
        "run_result [(SelectPosition n f, None)] (thrown_of r)"
        using e1(1)
        by (simp_all add: run_result_def thrown_of_def fatal_call_def sentinel_lookup_def sentinel_def)
      then show ?thesis by blast
    next
      case no_data: None
      with e1(2) ok have sent: "sentinel (error resp)" by (cases "error resp") auto
      have eff: "effect st st2 ([(SelectPosition n f, error resp)] @ [(InsertPosition n f, error resp2)])"
        using e1(1) e2(1) by (rule effect_trans)
      show ?thesis
      proof (cases "error resp2")
        case (Some e)
        with body None no_data have "r = Inl (Thrown e)" "st' = st2"
          by simp_all
        moreover have "run_result [(SelectPosition n f, error resp), (InsertPosition n f, Some e)]
            (Some (Thrown e))"
          using sent by (simp add: run_result_def fatal_call_def sentinel_lookup_def)
        ultimately show ?thesis
          using eff Some by (auto simp: thrown_of_def)
      next
        case no_err: None
        with body None no_data have "r = Inr ()" "st' = st2"
          by simp_all
        moreover have "run_result [(SelectPosition n f, error resp), (InsertPosition n f, None)] None"
          using sent by (simp add: run_result_def fatal_call_def sentinel_lookup_def)
        ultimately show ?thesis
          using eff no_err by (auto simp: thrown_of_def)
      qed
    qed
  qed
qed

lemma thrown_of_simps [simp]: "thrown_of (Inl e) = Some e" "thrown_of (Inr v) = None"
  by (simp_all add: thrown_of_def)

lemma variations_loop_effect:
  assumes "variations_loop ns cv st = (res, st')"
  shows "\<exists>calls. effect st st' calls \<and> run_result calls (thrown_of res)"
  using assms
proof (induction ns arbitrary: cv st)
  case Nil
  then show ?case by (auto simp: run_result_def effect_refl intro!: exI [of _ "[]"])
next
  case (Cons n ns)
  obtain r st1 where body: "variation_body n st = (r, st1)"
    by (cases "variation_body n st")
  from variation_body_effect [OF body] obtain seg where
    seg: "effect st st1 seg" "run_result seg (thrown_of r)"
    by blast
  show ?case
  proof (cases r)
    case (Inl e)
    with Cons.prems body have "res = Inl e" "st' = st1"
      by simp_all
    with seg Inl show ?thesis by auto
  next
    case (Inr variationId)
    with Cons.prems body have "variations_loop ns (cv(n \<mapsto> variationId)) st1 = (res, st')"
      by simp
    from Cons.IH [OF this] obtain calls where
      calls: "effect st1 st' calls" "run_result calls (thrown_of res)"
      by blast
    from seg(2) Inr have "run_result seg None" by simp
    then have "run_result (seg @ calls) (thrown_of res)"
      using calls(2) by (rule run_result_append)
    moreover have "effect st st' (seg @ calls)"
      using seg(1) calls(1) by (rule effect_trans)
    ultimately show ?thesis by blast
  qed
qed

lemma positions_loop_effect:
  assumes "positions_loop ks cv st = (res, st')"
  shows "\<exists>calls. effect st st' calls \<and> run_result calls (thrown_of res)"
  using assms
proof (induction ks arbitrary: st)
  case Nil
  then show ?case by (auto simp: run_result_def effect_refl intro!: exI [of _ "[]"])
next
  case (Cons k ks)
  obtain r st1 where body: "position_body cv k st = (r, st1)"
    by (cases "position_body cv k st")
  from position_body_effect [OF body] obtain seg where
    seg: "effect st st1 seg" "run_result seg (thrown_of r)"
    by blast
  show ?case
  proof (cases r)
    case (Inl e)
    with Cons.prems body have "res = Inl e" "st' = st1"
      by simp_all
    with seg Inl show ?thesis by auto
  next
    case (Inr u)
    with Cons.prems body have "positions_loop ks cv st1 = (res, st')"
      by simp
    from Cons.IH [OF this] obtain calls where
      calls: "effect st1 st' calls" "run_result calls (thrown_of res)"
      by blast
    from seg(2) Inr have "run_result seg None" by simp
    then have "run_result (seg @ calls) (thrown_of res)"
      using calls(2) by (rule run_result_append)
    moreover have "effect st st' (seg @ calls)"
      using seg(1) calls(1) by (rule effect_trans)
    ultimately show ?thesis by blast
  qed
qed

lemma verify_effect:
  assumes "verify st = (res, st')"
  shows "\<exists>calls. effect st st' calls \<and> run_result calls res"
proof -
  have "effect st st' (calls_since st st') \<and> run_result (calls_since st st') res"
    using assms
    by (auto simp: verify_def store_ops effect_def run_result_def calls_since_def Let_def
        fatal_call_def sentinel_lookup_def split: list.splits option.splits if_splits)
  then show ?thesis ..
qed


lemma migrateChordData_effect:
  assumes "migrateChordData captions st = (res, st')"
  shows "\<exists>calls. effect st st' calls \<and> run_result calls res"
proof -
  obtain r1 st1 where loop1:
    "variations_loop (new_Set (map chord_name captions)) Map.empty st = (r1, st1)"
    by (cases "variations_loop (new_Set (map chord_name captions)) Map.empty st")
  from variations_loop_effect [OF loop1] obtain calls1 where
    calls1: "effect st st1 calls1" "run_result calls1 (thrown_of r1)"
    by blast
  show ?thesis
  proof (cases r1)
    case (Inl e)
    with assms loop1 have "res = Some e" "st' = st1"
      by (simp_all add: migrateChordData_def)
    with calls1 Inl show ?thesis by auto
  next
    case (Inr chordVariations)
    obtain r2 st2 where loop2:
      "positions_loop (new_Set (map position_key captions)) chordVariations st1 = (r2, st2)"
      by (cases "positions_loop (new_Set (map position_key captions)) chordVariations st1")
    from positions_loop_effect [OF loop2] obtain calls2 where
      calls2: "effect st1 st2 calls2" "run_result calls2 (thrown_of r2)"
      by blast
    from calls1(2) Inr have ok1: "run_result calls1 None" by simp
    have eff12: "effect st st2 (calls1 @ calls2)"
      using calls1(1) calls2(1) by (rule effect_trans)
    have rr12: "run_result (calls1 @ calls2) (thrown_of r2)"
      using ok1 calls2(2) by (rule run_result_append)
    show ?thesis
    proof (cases r2)
      case (Inl e)
      with assms loop1 loop2 Inr have "res = Some e" "st' = st2"
        by (simp_all add: migrateChordData_def)
      with eff12 rr12 Inl show ?thesis by auto
    next
      case (Inr u)
      with assms loop1 loop2 \<open>r1 = Inr chordVariations\<close> have "verify st2 = (res, st')"
        by (simp add: migrateChordData_def)
      from verify_effect [OF this] obtain calls3 where
        calls3: "effect st2 st' calls3" "run_result calls3 res"
        by blast
      from rr12 Inr have "run_result (calls1 @ calls2) None" by simp
      then have "run_result ((calls1 @ calls2) @ calls3) res"
        using calls3(2) by (rule run_result_append)
      moreover have "effect st st' ((calls1 @ calls2) @ calls3)"
        using eff12 calls3(1) by (rule effect_trans)
      ultimately show ?thesis by blast
    qed
  qed
qed

lemma sentinel_lookup_not_fatal: "sentinel_lookup c \<Longrightarrow> \<not> fatal_call c"
  by (cases "fst c") (auto simp: sentinel_lookup_def fatal_call_def)

lemma wf_calls_sentinel:
  assumes "wf_calls (pre @ c # post)" "sentinel_lookup c"
  shows "\<exists>err post'. post = (insert_for (fst c), err) # post'"
proof -
  from assms(1) have "wf_calls (c # post)" by (rule wf_calls_suffix)
  with assms(2) sentinel_lookup_not_fatal [OF assms(2)]
  show ?thesis by (cases post) auto
qed

lemma wf_calls_fatal:
  assumes "wf_calls (pre @ c # post)" "fatal_call c"
  shows "post = []"
proof -
  from assms(1) have "wf_calls (c # post)" by (rule wf_calls_suffix)
  with assms(2) show ?thesis by simp
qed

lemma run_result_fatal:
  assumes "run_result (pre @ [c]) res" "fatal_call c"
  shows "\<exists>e. snd c = Some e \<and> res = Some (Thrown e)"
proof (cases res)
  case None
  with assms show ?thesis by (simp add: run_result_def)
next
  case (Some t)
  with assms show ?thesis by (cases t) (simp_all add: run_result_def)
qed

text \<open>
  C6: in any run of the procedure, whatever the store answers, a lookup answered with the
  "no rows" sentinel is not a failure and is followed at once by the insert of what it
  looked for; a lookup answered with any other error, or an insert answered with an
  error, is the last request of the run, whose outcome is that error; and the tables
  keep every row they had and every row a served insert added, also when the run aborts.
\<close>

theorem migrateChordData_errors:
  assumes "migrateChordData captions st = (res, st')"
  shows "\<exists>calls vs ps. log st' = log st @ calls
     \<and> chord_variations st' = chord_variations st @ vs
     \<and> map var_chord_name vs = inserted_variations calls
     \<and> chord_positions st' = chord_positions st @ ps
     \<and> map pair_of ps = inserted_positions calls
     \<and> (\<forall>pre c post. calls = pre @ c # post \<and> sentinel_lookup c \<longrightarrow>
           \<not> fatal_call c \<and> (\<exists>err post'. post = (insert_for (fst c), err) # post'))
     \<and> (\<forall>pre c post. calls = pre @ c # post \<and> fatal_call c \<longrightarrow>
           post = [] \<and> (\<exists>e. snd c = Some e \<and> res = Some (Thrown e)))
     \<and> (\<forall>e. res = Some (Thrown e) \<longrightarrow>
           calls \<noteq> [] \<and> fatal_call (last calls) \<and> snd (last calls) = Some e)"
proof -
  from migrateChordData_effect [OF assms] obtain calls where
    eff: "effect st st' calls" and rr: "run_result calls res"
    by blast
  from rr have wf: "wf_calls calls" by (simp add: run_result_def)
  from eff obtain vs ps where tables:
    "log st' = log st @ calls"
    "chord_variations st' = chord_variations st @ vs" "map var_chord_name vs = inserted_variations calls"
    "chord_positions st' = chord_positions st @ ps" "map pair_of ps = inserted_positions calls"
    unfolding effect_def by blast
  have a: "\<not> fatal_call c \<and> (\<exists>err post'. post = (insert_for (fst c), err) # post')"
    if "calls = pre @ c # post \<and> sentinel_lookup c" for pre c post
    using that wf wf_calls_sentinel [of pre c post] sentinel_lookup_not_fatal [of c] by simp
  have b: "post = [] \<and> (\<exists>e. snd c = Some e \<and> res = Some (Thrown e))"
    if "calls = pre @ c # post \<and> fatal_call c" for pre c post
  proof -
    from that wf have "post = []" using wf_calls_fatal [of pre c post] by simp
    with that rr show ?thesis using run_result_fatal [of pre c res] by simp
  qed
  have c: "calls \<noteq> [] \<and> fatal_call (last calls) \<and> snd (last calls) = Some e"
    if "res = Some (Thrown e)" for e
    using that rr by (simp add: run_result_def)
  from tables a b c show ?thesis by blast
qed

text \<open>
  A run on the sample data against a store that answers the fifth request with the
  sentinel and fails the seventh: the run goes on to insert after the fifth, stops at the
  seventh with its error, and the three rows inserted before stay.
\<close>

theorem migrateChordData_errors_witness:
  "fst (migrateChordData chordCaptionData faulty_store) = Some (Thrown (PgError ''57014''))
   \<and> names_of (snd (migrateChordData chordCaptionData faulty_store)) = [''D#'', ''C'', ''F7sus4'']
   \<and> map fst (log (snd (migrateChordData chordCaptionData faulty_store)))
       = [SelectVariation ''D#'', InsertVariation ''D#'', SelectVariation ''C'',
          InsertVariation ''C'', SelectVariation ''F7sus4'', InsertVariation ''F7sus4'',
          SelectVariation ''D'']"
proof -
  let ?res = "fst (migrateChordData chordCaptionData faulty_store)"
  let ?st' = "snd (migrateChordData chordCaptionData faulty_store)"
  let ?before = "[(SelectVariation ''D#'', Some (PgError ''PGRST116'')),
       (InsertVariation ''D#'', None),
       (SelectVariation ''C'', Some (PgError ''PGRST116'')),
       (InsertVariation ''C'', None),
       (SelectVariation ''F7sus4'', Some (PgError ''PGRST116'')),
       (InsertVariation ''F7sus4'', None)]"
  let ?last = "(SelectVariation ''D'', Some (PgError ''57014''))"
  have run: "migrateChordData chordCaptionData faulty_store = (?res, ?st')"
    by simp
  have log: "log ?st' = ?before @ ?last # []"
    by code_simp
  have start: "log faulty_store = []" "chord_variations faulty_store = []"
    by (simp_all add: faulty_store_def empty_store_def)
  from migrateChordData_errors [OF run] obtain calls vs where
    calls: "log ?st' = log faulty_store @ calls"
    and vs: "chord_variations ?st' = chord_variations faulty_store @ vs"
      "map var_chord_name vs = inserted_variations calls"
    and fatal: "\<forall>pre c post. calls = pre @ c # post \<and> fatal_call c \<longrightarrow>
           post = [] \<and> (\<exists>e. snd c = Some e \<and> ?res = Some (Thrown e))"
    by (elim exE conjE)
  have calls_eq: "calls = ?before @ ?last # []"
    using calls log start(1) by simp
  have "fatal_call ?last"
    by (simp add: fatal_call_def sentinel_def)
  with fatal [rule_format, of ?before ?last "[]"] calls_eq
  have "?res = Some (Thrown (PgError ''57014''))"
    by simp
  moreover have "names_of ?st' = [''D#'', ''C'', ''F7sus4'']"
    using vs start(2) unfolding calls_eq names_of_def by simp
  moreover have "map fst (log ?st') = [SelectVariation ''D#'', InsertVariation ''D#'',
      SelectVariation ''C'', InsertVariation ''C'', SelectVariation ''F7sus4'',
      InsertVariation ''F7sus4'', SelectVariation ''D'']"
    unfolding log by simp
  ultimately show ?thesis by blast
qed

subsection \<open>Runs in which every request is served\<close>

lemma find_append:
  "find P (xs @ ys) = (case find P xs of None \<Rightarrow> find P ys | Some x \<Rightarrow> Some x)"
  by (induction xs) auto

lemma find_variation_None:
  "find (\<lambda>r. var_chord_name r = n) (chord_variations st) = None \<longleftrightarrow> n \<notin> set (names_of st)"
  by (auto simp: find_None_iff names_of_def)

lemma find_position_None:
  "find (\<lambda>r. pos_chord_name r = fst p \<and> pos_fret_position r = snd p) (chord_positions st) = None
     \<longleftrightarrow> p \<notin> set (pairs_of st)"
  by (cases p) (auto simp: find_None_iff pairs_of_def pair_of_def)

lemma variation_body_found:
  assumes "faults st = []" "find (\<lambda>r. var_chord_name r = n) (chord_variations st) = Some r"
  shows "variation_body n st = (Inr (var_id r), st\<lparr>log := log st @ [(SelectVariation n, None)]\<rparr>)"
  using assms by (simp add: variation_body_def store_ops check_fatal_def)

lemma variation_body_missing:
  assumes "faults st = []" "find (\<lambda>r. var_chord_name r = n) (chord_variations st) = None"
  shows "variation_body n st =
    (Inr (fresh_id (map var_id (chord_variations st))),
     st\<lparr>chord_variations := chord_variations st @
           [\<lparr>var_id = fresh_id (map var_id (chord_variations st)), var_chord_name = n\<rparr>],
        log := log st @ [(SelectVariation n, Some not_found), (InsertVariation n, None)]\<rparr>)"
  using assms by (simp add: variation_body_def store_ops check_fatal_def not_found_def Let_def)

lemma position_body_found:
  assumes "faults st = []"
    and "find (\<lambda>r. pos_chord_name r = fst (key_pair k) \<and> pos_fret_position r = snd (key_pair k))
           (chord_positions st) = Some r"
  shows "position_body cv k st =
    (Inr (), st\<lparr>log := log st @ [(SelectPosition (fst (key_pair k)) (snd (key_pair k)), None)]\<rparr>)"
  using assms by (simp add: position_body_def store_ops check_fatal_def key_pair_def Let_def)

lemma position_body_missing:
  assumes "faults st = []"
    and "find (\<lambda>r. pos_chord_name r = fst (key_pair k) \<and> pos_fret_position r = snd (key_pair k))
           (chord_positions st) = None"
  shows "position_body cv k st =
    (Inr (),
     st\<lparr>chord_positions := chord_positions st @
           [built_position cv k (fresh_id (map pos_id (chord_positions st)))],
        log := log st @ [(SelectPosition (fst (key_pair k)) (snd (key_pair k)), Some not_found),
                         (InsertPosition (fst (key_pair k)) (snd (key_pair k)), None)]\<rparr>)"
  using assms
  by (simp add: position_body_def store_ops check_fatal_def not_found_def key_pair_def Let_def
      built_position_def)

lemma pair_of_built_position: "pair_of (built_position cv k key) = key_pair k"
  by (simp add: built_position_def pair_of_def Let_def)


lemma linked_names: "linked cv st m \<Longrightarrow> m \<in> set (names_of st)"
  using find_variation_None [of m st] by (auto simp: linked_def split: option.splits)

lemma variations_loop_served:
  assumes "faults st = []" and "\<forall>m\<in>S. linked cv st m"
  shows "\<exists>cv' st1. variations_loop ns cv st = (Inr cv', st1) \<and> faults st1 = []
     \<and> chord_positions st1 = chord_positions st
     \<and> set (names_of st1) = set (names_of st) \<union> set ns
     \<and> (distinct (names_of st) \<longrightarrow> distinct (names_of st1))
     \<and> (\<forall>m\<in>S \<union> set ns. linked cv' st1 m)"
  using assms
proof (induction ns arbitrary: cv st S)
  case Nil
  then show ?case by simp
next
  case (Cons n ns)
  show ?case
  proof (cases "find (\<lambda>r. var_chord_name r = n) (chord_variations st)")
    case (Some r)
    let ?st1 = "st\<lparr>log := log st @ [(SelectVariation n, None)]\<rparr>"
    let ?cv1 = "cv(n \<mapsto> var_id r)"
    have body: "variation_body n st = (Inr (var_id r), ?st1)"
      using Cons.prems(1) Some by (rule variation_body_found)
    have n_in: "n \<in> set (names_of st)"
      using Some find_variation_None [of n st] by simp
    have st1: "faults ?st1 = []" "chord_positions ?st1 = chord_positions st"
      "names_of ?st1 = names_of st"
      using Cons.prems(1) by (simp_all add: names_of_def)
    have "linked ?cv1 ?st1 m" if "m \<in> insert n S" for m
    proof (cases "m = n")
      case True
      with Some show ?thesis by (simp add: linked_def)
    next
      case False
      with that Cons.prems(2) have "linked cv st m" by simp
      with False show ?thesis by (auto simp: linked_def split: option.splits)
    qed
    then have "\<forall>m\<in>insert n S. linked ?cv1 ?st1 m" by blast
    from Cons.IH [OF st1(1) this] obtain cv' st' where loop:
      "variations_loop ns ?cv1 ?st1 = (Inr cv', st')" "faults st' = []"
      "chord_positions st' = chord_positions ?st1"
      "set (names_of st') = set (names_of ?st1) \<union> set ns"
      "distinct (names_of ?st1) \<longrightarrow> distinct (names_of st')"
      "\<forall>m\<in>insert n S \<union> set ns. linked cv' st' m"
      by blast
    have "variations_loop (n # ns) cv st = (Inr cv', st')"
      using body loop(1) by simp
    moreover have "set (names_of st') = set (names_of st) \<union> set (n # ns)"
      using loop(4) st1(3) n_in by auto
    moreover have "\<forall>m\<in>S \<union> set (n # ns). linked cv' st' m"
      using loop(6) by simp
    ultimately show ?thesis
      using loop(2,3,5) st1(2,3) by (intro exI conjI) simp_all
  next
    case None
    let ?row = "\<lparr>var_id = fresh_id (map var_id (chord_variations st)), var_chord_name = n\<rparr>"
    let ?st1 = "st\<lparr>chord_variations := chord_variations st @ [?row],
        log := log st @ [(SelectVariation n, Some not_found), (InsertVariation n, None)]\<rparr>"
    let ?cv1 = "cv(n \<mapsto> fresh_id (map var_id (chord_variations st)))"
    have body: "variation_body n st = (Inr (fresh_id (map var_id (chord_variations st))), ?st1)"
      using Cons.prems(1) None by (rule variation_body_missing)
    have n_out: "n \<notin> set (names_of st)"
      using None find_variation_None [of n st] by simp
    have st1: "faults ?st1 = []" "chord_positions ?st1 = chord_positions st"
      "names_of ?st1 = names_of st @ [n]"
      using Cons.prems(1) by (simp_all add: names_of_def)
    have "linked ?cv1 ?st1 m" if "m \<in> insert n S" for m
    proof (cases "m = n")
      case True
      with None show ?thesis by (simp add: linked_def find_append)
    next
      case False
      with that Cons.prems(2) have "linked cv st m" by simp
      with False show ?thesis by (auto simp: linked_def find_append split: option.splits)
    qed
    then have "\<forall>m\<in>insert n S. linked ?cv1 ?st1 m" by blast
    from Cons.IH [OF st1(1) this] obtain cv' st' where loop:
      "variations_loop ns ?cv1 ?st1 = (Inr cv', st')" "faults st' = []"
      "chord_positions st' = chord_positions ?st1"
      "set (names_of st') = set (names_of ?st1) \<union> set ns"
      "distinct (names_of ?st1) \<longrightarrow> distinct (names_of st')"
      "\<forall>m\<in>insert n S \<union> set ns. linked cv' st' m"
      by blast
    have "variations_loop (n # ns) cv st = (Inr cv', st')"
      using body loop(1) by simp
    moreover have "set (names_of st') = set (names_of st) \<union> set (n # ns)"
      using loop(4) st1(3) by auto
    moreover have "\<forall>m\<in>S \<union> set (n # ns). linked cv' st' m"
      using loop(6) by simp
    moreover have "distinct (names_of st) \<longrightarrow> distinct (names_of st')"
      using loop(5) st1(3) n_out by simp
    ultimately show ?thesis
      using loop(2,3) st1(2) by (intro exI conjI) simp_all
  qed
qed


lemma positions_loop_served:
  assumes "faults st = []"
  shows "\<exists>st1. positions_loop ks cv st = (Inr (), st1) \<and> faults st1 = []
     \<and> chord_variations st1 = chord_variations st
     \<and> set (pairs_of st1) = set (pairs_of st) \<union> key_pair ` set ks
     \<and> (distinct (pairs_of st) \<longrightarrow> distinct (pairs_of st1))
     \<and> (\<exists>ps. chord_positions st1 = chord_positions st @ ps
            \<and> (\<forall>r\<in>set ps. \<exists>k\<in>set ks. \<exists>key. r = built_position cv k key))"
  using assms
proof (induction ks arbitrary: st)
  case Nil
  then show ?case by simp
next
  case (Cons k ks)
  let ?P = "\<lambda>r. pos_chord_name r = fst (key_pair k) \<and> pos_fret_position r = snd (key_pair k)"
  show ?case
  proof (cases "find ?P (chord_positions st)")
    case (Some r)
    let ?st1 = "st\<lparr>log := log st @ [(SelectPosition (fst (key_pair k)) (snd (key_pair k)), None)]\<rparr>"
    have body: "position_body cv k st = (Inr (), ?st1)"
      using Cons.prems Some by (rule position_body_found)
    have k_in: "key_pair k \<in> set (pairs_of st)"
      using Some find_position_None [of "key_pair k" st] by simp
    have st1: "faults ?st1 = []" "chord_variations ?st1 = chord_variations st"
      "chord_positions ?st1 = chord_positions st" "pairs_of ?st1 = pairs_of st"
      using Cons.prems by (simp_all add: pairs_of_def)
    from Cons.IH [OF st1(1)] obtain st' ps where loop:
      "positions_loop ks cv ?st1 = (Inr (), st')" "faults st' = []"
      "chord_variations st' = chord_variations ?st1"
      "set (pairs_of st') = set (pairs_of ?st1) \<union> key_pair ` set ks"
      "distinct (pairs_of ?st1) \<longrightarrow> distinct (pairs_of st')"
      "chord_positions st' = chord_positions ?st1 @ ps"
      "\<forall>r\<in>set ps. \<exists>k\<in>set ks. \<exists>key. r = built_position cv k key"
      by blast
    have "positions_loop (k # ks) cv st = (Inr (), st')"
      using body loop(1) by simp
    moreover have "set (pairs_of st') = set (pairs_of st) \<union> key_pair ` set (k # ks)"
      using loop(4) st1(4) k_in by auto
    moreover have "chord_positions st' = chord_positions st @ ps"
      using loop(6) st1(3) by simp
    moreover have "\<forall>r\<in>set ps. \<exists>k'\<in>set (k # ks). \<exists>key. r = built_position cv k' key"
      using loop(7) by auto
    moreover have "distinct (pairs_of st) \<longrightarrow> distinct (pairs_of st')"
      using loop(5) st1(4) by simp
    moreover have "chord_variations st' = chord_variations st"
      using loop(3) st1(2) by simp
    ultimately show ?thesis
      using loop(2) by blast
  next
    case None
    let ?row = "built_position cv k (fresh_id (map pos_id (chord_positions st)))"
    let ?st1 = "st\<lparr>chord_positions := chord_positions st @ [?row],
        log := log st @ [(SelectPosition (fst (key_pair k)) (snd (key_pair k)), Some not_found),
                         (InsertPosition (fst (key_pair k)) (snd (key_pair k)), None)]\<rparr>"
    have body: "position_body cv k st = (Inr (), ?st1)"
      using Cons.prems None by (rule position_body_missing)
    have k_out: "key_pair k \<notin> set (pairs_of st)"
      using None find_position_None [of "key_pair k" st] by simp
    have st1: "faults ?st1 = []" "chord_variations ?st1 = chord_variations st"
      "chord_positions ?st1 = chord_positions st @ [?row]"
      "pairs_of ?st1 = pairs_of st @ [key_pair k]"
      using Cons.prems by (simp_all add: pairs_of_def pair_of_built_position)
    from Cons.IH [OF st1(1)] obtain st' ps where loop:
      "positions_loop ks cv ?st1 = (Inr (), st')" "faults st' = []"
      "chord_variations st' = chord_variations ?st1"
      "set (pairs_of st') = set (pairs_of ?st1) \<union> key_pair ` set ks"
      "distinct (pairs_of ?st1) \<longrightarrow> distinct (pairs_of st')"
      "chord_positions st' = chord_positions ?st1 @ ps"
      "\<forall>r\<in>set ps. \<exists>k\<in>set ks. \<exists>key. r = built_position cv k key"
      by blast
    have "positions_loop (k # ks) cv st = (Inr (), st')"
      using body loop(1) by simp
    moreover have "set (pairs_of st') = set (pairs_of st) \<union> key_pair ` set (k # ks)"
      using loop(4) st1(4) by auto
    moreover have "chord_positions st' = chord_positions st @ (?row # ps)"
      using loop(6) st1(3) by simp
    moreover have "\<forall>r\<in>set (?row # ps). \<exists>k'\<in>set (k # ks). \<exists>key. r = built_position cv k' key"
      using loop(7) by auto
    moreover have "distinct (pairs_of st) \<longrightarrow> distinct (pairs_of st')"
      using loop(5) st1(4) k_out by simp
    moreover have "chord_variations st' = chord_variations st"
      using loop(3) st1(2) by simp
    ultimately show ?thesis
      using loop(2) by blast
  qed
qed

lemma variations_loop_present:
  assumes "faults st = []" and "set ns \<subseteq> set (names_of st)"
  shows "\<exists>cv'. variations_loop ns cv st =
     (Inr cv', st\<lparr>log := log st @ map (\<lambda>n. (SelectVariation n, None)) ns\<rparr>)"
  using assms
proof (induction ns arbitrary: cv st)
  case Nil
  then show ?case by simp
next
  case (Cons n ns)
  then obtain r where r: "find (\<lambda>r. var_chord_name r = n) (chord_variations st) = Some r"
    using find_variation_None [of n st] by auto
  let ?st1 = "st\<lparr>log := log st @ [(SelectVariation n, None)]\<rparr>"
  have "faults ?st1 = []" "set ns \<subseteq> set (names_of ?st1)"
    using Cons.prems by (simp_all add: names_of_def)
  from Cons.IH [OF this] obtain cv' where
    "variations_loop ns (cv(n \<mapsto> var_id r)) ?st1 =
       (Inr cv', ?st1\<lparr>log := log ?st1 @ map (\<lambda>n. (SelectVariation n, None)) ns\<rparr>)"
    by blast
  then show ?case
    using variation_body_found [OF Cons.prems(1) r] by simp
qed

lemma positions_loop_present:
  assumes "faults st = []" and "key_pair ` set ks \<subseteq> set (pairs_of st)"
  shows "positions_loop ks cv st =
     (Inr (), st\<lparr>log := log st @
        map (\<lambda>k. (SelectPosition (fst (key_pair k)) (snd (key_pair k)), None)) ks\<rparr>)"
  using assms
proof (induction ks arbitrary: st)
  case Nil
  then show ?case by simp
next
  case (Cons k ks)
  then obtain r where r:
    "find (\<lambda>r. pos_chord_name r = fst (key_pair k) \<and> pos_fret_position r = snd (key_pair k))
       (chord_positions st) = Some r"
    using find_position_None [of "key_pair k" st] by auto
  let ?st1 = "st\<lparr>log := log st @ [(SelectPosition (fst (key_pair k)) (snd (key_pair k)), None)]\<rparr>"
  have "faults ?st1 = []" "key_pair ` set ks \<subseteq> set (pairs_of ?st1)"
    using Cons.prems by (simp_all add: pairs_of_def)
  from Cons.IH [OF this]
  show ?case
    using position_body_found [OF Cons.prems(1) r] by simp
qed

lemma verify_served:
  assumes "faults st = []"
  shows "verify st =
    (None, st\<lparr>log := log st @ [(SelectAllVariations, None), (SelectAllPositions, None)]\<rparr>)"
  using assms by (simp add: verify_def store_ops)

lemma set_foldl_set_add: "set (foldl set_add acc xs) = set acc \<union> set xs"
  by (induction xs arbitrary: acc) (auto simp: set_add_def)

lemma distinct_foldl_set_add: "distinct acc \<Longrightarrow> distinct (foldl set_add acc xs)"
  by (induction xs arbitrary: acc) (auto simp: set_add_def)

lemma set_new_Set: "set (new_Set xs) = set xs"
  by (simp add: new_Set_def set_foldl_set_add)

lemma distinct_new_Set: "distinct (new_Set xs)"
  by (simp add: new_Set_def distinct_foldl_set_add)

lemma length_split: "length (split sep s) = Suc (length (filter (\<lambda>c. c = sep) s))"
  by (induction s) (auto split: list.splits)

lemma index_Some: "i < length xs \<Longrightarrow> index xs i = Some (xs ! i)"
  by (induction xs i rule: index.induct) simp_all

text \<open>A composite key always splits into at least two pieces.\<close>

lemma position_key_parts:
  "index (split CHR ''-'' (position_key item)) 0 \<noteq> None
   \<and> index (split CHR ''-'' (position_key item)) 1 \<noteq> None"
proof -
  have "2 \<le> length (split CHR ''-'' (position_key item))"
    by (simp add: length_split position_key_def)
  then have "0 < length (split CHR ''-'' (position_key item))"
    "1 < length (split CHR ''-'' (position_key item))"
    by linarith+
  then show ?thesis
    using index_Some [of 0 "split CHR ''-'' (position_key item)"]
      index_Some [of 1 "split CHR ''-'' (position_key item)"]
    by simp
qed

lemma split_no_sep: "sep \<notin> set s \<Longrightarrow> split sep s = [s]"
  by (induction s) auto

lemma split_join: "sep \<notin> set a \<Longrightarrow> split sep (a @ sep # b) = a # split sep b"
  by (induction a) auto

lemma key_pair_position_key:
  assumes "no_dash (chord_name item)" "no_dash (fret_position item)"
  shows "key_pair (position_key item) = (chord_name item, fret_position item)"
  using assms
  by (simp add: key_pair_def position_key_def no_dash_def split_join split_no_sep str_def)


lemma before_first_sep: "before_first sep (a @ sep # b) = before_first sep a"
  by (induction a) (simp_all add: before_first_def)

lemma before_first_all: "before_first sep a = a \<longleftrightarrow> sep \<notin> set a"
  by (auto simp: before_first_def takeWhile_eq_all_conv)

text \<open>
  Splitting a composite key gives back the caption's name and position exactly when
  neither contains \<^verbatim>\<open>-\<close>.
\<close>

lemma key_pair_round_trip:
  "key_pair (position_key item) = (chord_name item, fret_position item)
     \<longleftrightarrow> no_dash (chord_name item) \<and> no_dash (fret_position item)"
proof
  assume "no_dash (chord_name item) \<and> no_dash (fret_position item)"
  then show "key_pair (position_key item) = (chord_name item, fret_position item)"
    by (simp add: key_pair_position_key)
next
  assume eq: "key_pair (position_key item) = (chord_name item, fret_position item)"
  have "fst (key_pair (position_key item)) = before_first CHR ''-'' (chord_name item)"
    by (simp add: key_pair_def position_key_def index_split_0 str_def before_first_sep)
  with eq have name: "no_dash (chord_name item)"
    by (simp add: no_dash_def before_first_all [symmetric])
  then have "snd (key_pair (position_key item)) = before_first CHR ''-'' (fret_position item)"
    by (simp add: key_pair_def position_key_def no_dash_def split_join index_split_0 str_def)
  with eq have "no_dash (fret_position item)"
    by (simp add: no_dash_def before_first_all [symmetric])
  with name show "no_dash (chord_name item) \<and> no_dash (fret_position item)" ..
qed

lemma linked_cong:
  "chord_variations st' = chord_variations st \<Longrightarrow> linked cv st' n = linked cv st n"
  by (simp add: linked_def)

lemma migrateChordData_served:
  assumes "faults st = []"
  shows "\<exists>cv st1. migrateChordData captions st = (None, st1) \<and> faults st1 = []
     \<and> set (names_of st1) = set (names_of st) \<union> chord_name ` set captions
     \<and> set (pairs_of st1) = set (pairs_of st) \<union> key_pair ` position_key ` set captions
     \<and> (distinct (names_of st) \<longrightarrow> distinct (names_of st1))
     \<and> (distinct (pairs_of st) \<longrightarrow> distinct (pairs_of st1))
     \<and> (\<forall>c\<in>set captions. linked cv st1 (chord_name c))
     \<and> (\<exists>ps. chord_positions st1 = chord_positions st @ ps
            \<and> (\<forall>r\<in>set ps. \<exists>c\<in>set captions. \<exists>key. r = built_position cv (position_key c) key))"
proof -
  let ?ns = "new_Set (map chord_name captions)"
  let ?ks = "new_Set (map position_key captions)"
  have "\<forall>m\<in>{}. linked Map.empty st m" by simp
  from variations_loop_served [OF assms this, of ?ns] obtain cv sta where loop1:
    "variations_loop ?ns Map.empty st = (Inr cv, sta)" "faults sta = []"
    "chord_positions sta = chord_positions st"
    "set (names_of sta) = set (names_of st) \<union> set ?ns"
    "distinct (names_of st) \<longrightarrow> distinct (names_of sta)"
    "\<forall>m\<in>{} \<union> set ?ns. linked cv sta m"
    by blast
  from positions_loop_served [OF loop1(2), of ?ks cv] obtain stb ps where loop2:
    "positions_loop ?ks cv sta = (Inr (), stb)" "faults stb = []"
    "chord_variations stb = chord_variations sta"
    "set (pairs_of stb) = set (pairs_of sta) \<union> key_pair ` set ?ks"
    "distinct (pairs_of sta) \<longrightarrow> distinct (pairs_of stb)"
    "chord_positions stb = chord_positions sta @ ps"
    "\<forall>r\<in>set ps. \<exists>k\<in>set ?ks. \<exists>key. r = built_position cv k key"
    by blast
  let ?st1 = "stb\<lparr>log := log stb @ [(SelectAllVariations, None), (SelectAllPositions, None)]\<rparr>"
  have run: "migrateChordData captions st = (None, ?st1)"
    using loop1(1) loop2(1) verify_served [OF loop2(2)] by (simp add: migrateChordData_def)
  have tables: "chord_variations ?st1 = chord_variations sta" "chord_positions ?st1 = chord_positions stb"
    "names_of ?st1 = names_of sta" "pairs_of ?st1 = pairs_of stb" "pairs_of sta = pairs_of st"
    using loop2(3) loop1(3) by (simp_all add: names_of_def pairs_of_def)
  have "faults ?st1 = []"
    using loop2(2) by simp
  moreover have "set (names_of ?st1) = set (names_of st) \<union> chord_name ` set captions"
    using loop1(4) tables(3) by (simp add: set_new_Set)
  moreover have "set (pairs_of ?st1) = set (pairs_of st) \<union> key_pair ` position_key ` set captions"
    using loop2(4) tables(4,5) by (simp add: set_new_Set)
  moreover have "distinct (names_of st) \<longrightarrow> distinct (names_of ?st1)"
    using loop1(5) tables(3) by simp
  moreover have "distinct (pairs_of st) \<longrightarrow> distinct (pairs_of ?st1)"
    using loop2(5) tables(4,5) by simp
  moreover have "\<forall>c\<in>set captions. linked cv ?st1 (chord_name c)"
    using loop1(6) linked_cong [OF tables(1)] by (simp add: set_new_Set)
  moreover have "chord_positions ?st1 = chord_positions st @ ps"
    using loop2(6) loop1(3) by simp
  moreover have "\<forall>r\<in>set ps. \<exists>c\<in>set captions. \<exists>key. r = built_position cv (position_key c) key"
    using loop2(7) by (auto simp: set_new_Set)
  ultimately show ?thesis
    using run by blast
qed

lemma migrateChordData_rerun:
  assumes "faults st = []" "chord_name ` set captions \<subseteq> set (names_of st)"
    "key_pair ` position_key ` set captions \<subseteq> set (pairs_of st)"
  shows "migrateChordData captions st =
    (None, st\<lparr>log := log st
        @ map (\<lambda>n. (SelectVariation n, None)) (new_Set (map chord_name captions))
        @ map (\<lambda>k. (SelectPosition (fst (key_pair k)) (snd (key_pair k)), None))
            (new_Set (map position_key captions))
        @ [(SelectAllVariations, None), (SelectAllPositions, None)]\<rparr>)"
proof -
  let ?ns = "new_Set (map chord_name captions)"
  let ?ks = "new_Set (map position_key captions)"
  let ?sta = "st\<lparr>log := log st @ map (\<lambda>n. (SelectVariation n, None)) ?ns\<rparr>"
  let ?stb = "?sta\<lparr>log := log ?sta @
     map (\<lambda>k. (SelectPosition (fst (key_pair k)) (snd (key_pair k)), None)) ?ks\<rparr>"
  have "set ?ns \<subseteq> set (names_of st)"
    using assms(2) by (simp add: set_new_Set)
  from variations_loop_present [OF assms(1) this, of Map.empty] obtain cv where
    loop1: "variations_loop ?ns Map.empty st = (Inr cv, ?sta)"
    by blast
  have sta: "faults ?sta = []" "key_pair ` set ?ks \<subseteq> set (pairs_of ?sta)"
    using assms(1,3) by (simp_all add: set_new_Set pairs_of_def)
  have loop2: "positions_loop ?ks cv ?sta = (Inr (), ?stb)"
    using sta by (rule positions_loop_present)
  have "faults ?stb = []"
    using assms(1) by simp
  from verify_served [OF this] loop1 loop2 show ?thesis
    by (simp add: migrateChordData_def)
qed

lemma count_list_distinct: "distinct xs \<Longrightarrow> x \<in> set xs \<Longrightarrow> count_list xs x = 1"
  by (induction xs) (auto simp: count_list_0_iff)

lemma dash_free_key_pair:
  assumes "dash_free captions" "c \<in> set captions"
  shows "key_pair (position_key c) = (chord_name c, fret_position c)"
  using assms by (auto simp: dash_free_def list_all_iff intro: key_pair_position_key)

lemma calls_since_log: "calls_since st (st\<lparr>log := log st @ calls\<rparr>) = calls"
  by (simp add: calls_since_def)

text \<open>
  With every request served, a second run on the same captions leaves both tables as
  the first run left them and makes no insert request. The first run keeps the names
  unique if they were, and then holds exactly one variation per caption name; on captions
  free of \<^verbatim>\<open>-\<close> it keeps the (name, position) pairs unique if they were, and then
  holds exactly one position per caption pair.
\<close>

lemma migrateChordData_idempotent:
  assumes "faults st = []"
  shows "\<exists>st1 st2. migrateChordData captions st = (None, st1)
     \<and> migrateChordData captions st1 = (None, st2)
     \<and> chord_variations st2 = chord_variations st1
     \<and> chord_positions st2 = chord_positions st1
     \<and> list_all (\<lambda>c. \<not> insert_request (fst c)) (calls_since st1 st2)
     \<and> (distinct (names_of st) \<longrightarrow>
           distinct (names_of st1)
           \<and> (\<forall>c\<in>set captions. count_list (names_of st1) (chord_name c) = 1))
     \<and> (distinct (pairs_of st) \<and> dash_free captions \<longrightarrow>
           distinct (pairs_of st1)
           \<and> (\<forall>c\<in>set captions. count_list (pairs_of st1) (chord_name c, fret_position c) = 1))"
proof -
  from migrateChordData_served [OF assms, of captions] obtain st1 where run1:
    "migrateChordData captions st = (None, st1)" "faults st1 = []"
    "set (names_of st1) = set (names_of st) \<union> chord_name ` set captions"
    "set (pairs_of st1) = set (pairs_of st) \<union> key_pair ` position_key ` set captions"
    "distinct (names_of st) \<longrightarrow> distinct (names_of st1)"
    "distinct (pairs_of st) \<longrightarrow> distinct (pairs_of st1)"
    by blast
  let ?calls = "map (\<lambda>n. (SelectVariation n, None)) (new_Set (map chord_name captions))
        @ map (\<lambda>k. (SelectPosition (fst (key_pair k)) (snd (key_pair k)), None))
            (new_Set (map position_key captions))
        @ [(SelectAllVariations, None), (SelectAllPositions, None)]"
  let ?st2 = "st1\<lparr>log := log st1 @ ?calls\<rparr>"
  have "chord_name ` set captions \<subseteq> set (names_of st1)"
    "key_pair ` position_key ` set captions \<subseteq> set (pairs_of st1)"
    using run1(3,4) by auto
  with run1(2) have run2: "migrateChordData captions st1 = (None, ?st2)"
    by (rule migrateChordData_rerun)
  have "calls_since st1 ?st2 = ?calls"
    by (rule calls_since_log)
  then have no_inserts: "list_all (\<lambda>c. \<not> insert_request (fst c)) (calls_since st1 ?st2)"
    by (auto simp: list_all_iff)
  have names: "count_list (names_of st1) (chord_name c) = 1"
    if "distinct (names_of st)" "c \<in> set captions" for c
    using that run1(3,5) by (intro count_list_distinct) auto
  have pairs: "count_list (pairs_of st1) (chord_name c, fret_position c) = 1"
    if "distinct (pairs_of st)" "dash_free captions" "c \<in> set captions" for c
  proof -
    have "key_pair (position_key c) \<in> set (pairs_of st1)"
      using that(3) run1(4) by auto
    then have "(chord_name c, fret_position c) \<in> set (pairs_of st1)"
      using dash_free_key_pair [OF that(2,3)] by simp
    with that(1) run1(6) show ?thesis
      by (intro count_list_distinct) auto
  qed
  have "chord_variations ?st2 = chord_variations st1" "chord_positions ?st2 = chord_positions st1"
    by simp_all
  with run1(1,5,6) run2 no_inserts names pairs show ?thesis
    by blast
qed

text \<open>The sample data, from the empty store.\<close>

lemma migrateChordData_idempotent_sample:
  "\<exists>st1 st2. migrateChordData chordCaptionData empty_store = (None, st1)
     \<and> migrateChordData chordCaptionData st1 = (None, st2)
     \<and> chord_variations st2 = chord_variations st1
     \<and> chord_positions st2 = chord_positions st1
     \<and> list_all (\<lambda>c. \<not> insert_request (fst c)) (calls_since st1 st2)
     \<and> count_list (names_of st1) ''F7sus4'' = 1
     \<and> count_list (pairs_of st1) (''F7sus4'', ''Pos6'') = 1"
proof -
  let ?c = "\<lparr>chord_name = ''F7sus4'', fret_position = ''Pos6'', start_time = ''0:29'',
             end_time = ''1:19''\<rparr>"
  have served: "faults empty_store = []"
    and unique: "distinct (names_of empty_store)" "distinct (pairs_of empty_store)"
    by (simp_all add: empty_store_def names_of_def pairs_of_def)
  have free: "dash_free chordCaptionData"
    by (simp add: dash_free_def chordCaptionData_def no_dash_def)
  have c: "?c \<in> set chordCaptionData"
    by (simp add: chordCaptionData_def)
  from migrateChordData_idempotent [OF served, of chordCaptionData] unique free
  obtain st1 st2 where run:
    "migrateChordData chordCaptionData empty_store = (None, st1)"
    "migrateChordData chordCaptionData st1 = (None, st2)"
    "chord_variations st2 = chord_variations st1"
    "chord_positions st2 = chord_positions st1"
    "list_all (\<lambda>c. \<not> insert_request (fst c)) (calls_since st1 st2)"
    "\<forall>c\<in>set chordCaptionData. count_list (names_of st1) (chord_name c) = 1"
    "\<forall>c\<in>set chordCaptionData. count_list (pairs_of st1) (chord_name c, fret_position c) = 1"
    by blast
  from run(6,7) c have "count_list (names_of st1) (chord_name ?c) = 1"
    "count_list (pairs_of st1) (chord_name ?c, fret_position ?c) = 1"
    by blast+
  then have "count_list (names_of st1) ''F7sus4'' = 1"
    "count_list (pairs_of st1) (''F7sus4'', ''Pos6'') = 1"
    by simp_all
  with run(1-5) show ?thesis by blast
qed

text \<open>
  On captions free of \<^verbatim>\<open>-\<close>, with every request served: every caption has its
  position row, and every row the run inserted comes from a caption, carries that
  caption's name and position joined by \<^verbatim>\<open>-\<close>, and references the variation a
  lookup of the caption's chord name finds.
\<close>

lemma migrateChordData_dash_free:
  assumes "faults st = []" "dash_free captions"
  shows "\<exists>st1 ps. migrateChordData captions st = (None, st1)
     \<and> chord_positions st1 = chord_positions st @ ps
     \<and> (\<forall>c\<in>set captions. (chord_name c, fret_position c) \<in> set (pairs_of st1))
     \<and> (\<forall>r\<in>set ps. \<exists>c\<in>set captions. \<exists>v.
           pair_of r = (chord_name c, fret_position c)
           \<and> chord_position_full_name r = chord_name c @ ''-'' @ fret_position c
           \<and> find (\<lambda>v. var_chord_name v = chord_name c) (chord_variations st1) = Some v
           \<and> chord_variation_id r = Some (var_id v))"
proof -
  from migrateChordData_served [OF assms(1), of captions] obtain cv st1 ps where run:
    "migrateChordData captions st = (None, st1)"
    "set (pairs_of st1) = set (pairs_of st) \<union> key_pair ` position_key ` set captions"
    "\<forall>c\<in>set captions. linked cv st1 (chord_name c)"
    "chord_positions st1 = chord_positions st @ ps"
    "\<forall>r\<in>set ps. \<exists>c\<in>set captions. \<exists>key. r = built_position cv (position_key c) key"
    by (elim exE conjE)
  have present: "(chord_name c, fret_position c) \<in> set (pairs_of st1)" if "c \<in> set captions" for c
  proof -
    from that run(2) have "key_pair (position_key c) \<in> set (pairs_of st1)" by auto
    then show ?thesis using dash_free_key_pair [OF assms(2) that] by simp
  qed
  have derived: "\<exists>c\<in>set captions. \<exists>v.
           pair_of r = (chord_name c, fret_position c)
           \<and> chord_position_full_name r = chord_name c @ ''-'' @ fret_position c
           \<and> find (\<lambda>v. var_chord_name v = chord_name c) (chord_variations st1) = Some v
           \<and> chord_variation_id r = Some (var_id v)" if "r \<in> set ps" for r
  proof -
    from that run(5) obtain c key where c: "c \<in> set captions"
      and r: "r = built_position cv (position_key c) key"
      by blast
    note kp = dash_free_key_pair [OF assms(2) c]
    from run(3) c have "linked cv st1 (chord_name c)"
      by (rule bspec)
    then obtain v where v:
      "find (\<lambda>v. var_chord_name v = chord_name c) (chord_variations st1) = Some v"
      "cv (chord_name c) = Some (var_id v)"
      by (cases "find (\<lambda>v. var_chord_name v = chord_name c) (chord_variations st1)")
        (simp_all add: linked_def)
    have "pair_of r = (chord_name c, fret_position c)"
      "chord_position_full_name r = chord_name c @ ''-'' @ fret_position c"
      "chord_variation_id r = Some (var_id v)"
      using r kp v(2) by (simp_all add: built_position_def pair_of_def Let_def)
    with c v(1) show ?thesis by (intro bexI [of _ c] exI [of _ v]) simp_all
  qed
  show ?thesis
  proof (intro exI conjI)
    show "migrateChordData captions st = (None, st1)" by (rule run(1))
    show "chord_positions st1 = chord_positions st @ ps" by (rule run(4))
    show "\<forall>c\<in>set captions. (chord_name c, fret_position c) \<in> set (pairs_of st1)"
      using present by (rule ballI)
    show "\<forall>r\<in>set ps. \<exists>c\<in>set captions. \<exists>v.
           pair_of r = (chord_name c, fret_position c)
           \<and> chord_position_full_name r = chord_name c @ ''-'' @ fret_position c
           \<and> find (\<lambda>v. var_chord_name v = chord_name c) (chord_variations st1) = Some v
           \<and> chord_variation_id r = Some (var_id v)"
      using derived by (rule ballI)
  qed
qed

subsection \<open>Runs on concrete inputs\<close>

text \<open>
  C7: on the nine sample captions, from empty tables, the run completes, having inserted
  six variations, one per distinct chord name, and seven positions, one per distinct
  (name, position) pair.
\<close>

theorem migrateChordData_sample:
  "fst (migrateChordData chordCaptionData empty_store) = None
   \<and> length chordCaptionData = 9
   \<and> names_of (snd (migrateChordData chordCaptionData empty_store))
       = [''D#'', ''C'', ''F7sus4'', ''D'', ''A'', ''A#'']
   \<and> pairs_of (snd (migrateChordData chordCaptionData empty_store))
       = [(''D#'', ''Pos2''), (''D#'', ''Open''), (''C'', ''Open''), (''F7sus4'', ''Pos6''),
          (''D'', ''Open''), (''A'', ''Pos1''), (''A#'', ''Pos3v2'')]
   \<and> inserted_variations (log (snd (migrateChordData chordCaptionData empty_store)))
       = [''D#'', ''C'', ''F7sus4'', ''D'', ''A'', ''A#'']
   \<and> inserted_positions (log (snd (migrateChordData chordCaptionData empty_store)))
       = [(''D#'', ''Pos2''), (''D#'', ''Open''), (''C'', ''Open''), (''F7sus4'', ''Pos6''),
          (''D'', ''Open''), (''A'', ''Pos1''), (''A#'', ''Pos3v2'')]
   \<and> length (chord_variations (snd (migrateChordData chordCaptionData empty_store))) = 6
   \<and> length (chord_positions (snd (migrateChordData chordCaptionData empty_store))) = 7"
  by code_simp

text \<open>
  C1: a run is said to leave exactly one row per distinct (name, position) pair of the
  captions. The captions (\<^verbatim>\<open>A#\<close>, \<^verbatim>\<open>Pos3-v1\<close>) and (\<^verbatim>\<open>A#\<close>, \<^verbatim>\<open>Pos3-v2\<close>) are two
  distinct pairs with two distinct keys; both keys are read back as (\<^verbatim>\<open>A#\<close>,
  \<^verbatim>\<open>Pos3\<close>), the second lookup finds the row of the first, and the run leaves one row,
  which is the row of neither pair.
\<close>

theorem one_row_per_pair_dashed:
  "map position_key dashed_pairs = [''A#-Pos3-v1'', ''A#-Pos3-v2'']
   \<and> fst (migrateChordData dashed_pairs empty_store) = None
   \<and> pairs_of (snd (migrateChordData dashed_pairs empty_store)) = [(''A#'', ''Pos3'')]
   \<and> count_list (pairs_of (snd (migrateChordData dashed_pairs empty_store)))
        (''A#'', ''Pos3-v1'') = 0
   \<and> count_list (pairs_of (snd (migrateChordData dashed_pairs empty_store)))
        (''A#'', ''Pos3-v2'') = 0"
  by code_simp

text \<open>
  C4: the stored \<^verbatim>\<open>chord_position_full_name\<close> is said to be the caption's own name
  and position joined by \<^verbatim>\<open>-\<close>. For the caption (\<^verbatim>\<open>A#\<close>, \<^verbatim>\<open>Pos3-v2\<close>) the key
  \<^verbatim>\<open>A#-Pos3-v2\<close> is split at every \<^verbatim>\<open>-\<close>, the position read back is \<^verbatim>\<open>Pos3\<close>, and
  the row is stored under (\<^verbatim>\<open>A#\<close>, \<^verbatim>\<open>Pos3\<close>) with the full name \<^verbatim>\<open>A#-Pos3\<close>.
\<close>

theorem full_name_dashed_position:
  "map position_key dashed_position = [''A#-Pos3-v2'']
   \<and> fst (migrateChordData dashed_position empty_store) = None
   \<and> map chord_position_full_name
        (chord_positions (snd (migrateChordData dashed_position empty_store))) = [''A#-Pos3'']
   \<and> pairs_of (snd (migrateChordData dashed_position empty_store)) = [(''A#'', ''Pos3'')]"
  by code_simp

text \<open>
  C5: every position row derived from a caption is said to reference the variation of
  that caption's chord name. For the captions (\<^verbatim>\<open>Cm7\<close>, \<^verbatim>\<open>Open\<close>) and
  (\<^verbatim>\<open>Cm7-5\<close>, \<^verbatim>\<open>Open\<close>) the variations get the keys 1 and 2; the key
  \<^verbatim>\<open>Cm7-5-Open\<close> of the second caption is read back as (\<^verbatim>\<open>Cm7\<close>, \<^verbatim>\<open>5\<close>), and its
  row references variation 1.
\<close>

theorem variation_id_dashed_name:
  "fst (migrateChordData dashed_name empty_store) = None
   \<and> chord_variations (snd (migrateChordData dashed_name empty_store))
       = [\<lparr>var_id = 1, var_chord_name = ''Cm7''\<rparr>, \<lparr>var_id = 2, var_chord_name = ''Cm7-5''\<rparr>]
   \<and> pairs_of (snd (migrateChordData dashed_name empty_store))
       = [(''Cm7'', ''Open''), (''Cm7'', ''5'')]
   \<and> map chord_variation_id (chord_positions (snd (migrateChordData dashed_name empty_store)))
       = [Some 1, Some 1]"
  by code_simp

end
